theory Spec2Isabelle
  imports Complex_Main "HOL-Library.Multiset" "HOL-Library.Char_ord" "HOL-Library.List_Lexorder"
    "HOL-Library.Log_Nat"
begin

section \<open>Cells and numeric coercion\<close>

text \<open>
  A spreadsheet cell as the data frames of \<^verbatim>\<open>app.py\<close> hold it: a finite number, a
  text, or a missing value (\<^verbatim>\<open>None\<close>/\<^verbatim>\<open>NaN\<close>). An infinite number enters as a text that
  pandas reads as an infinity (\<^verbatim>\<open>inf\<close>, \<^verbatim>\<open>1e999\<close>).

  The engine is modelled twice. \<open>compute\<close> computes with the exact arithmetic of the reals
  and serves the properties that do not turn on rounding: the rows of the join, the selection
  of the shortages, monotonicity. \<open>compute_f64\<close> computes as the code does, with IEEE doubles:
  every operation rounds to the nearest double, overflows to an infinity, and
  \<^verbatim>\<open>math.floor\<close> raises on an infinity and on \<^verbatim>\<open>NaN\<close>.
\<close>

datatype cell = Num real | Text string | Missing

text \<open>
  \<^verbatim>\<open>pd.to_numeric(col, errors="coerce")\<close>, cell by cell, in the exact model. The result
  \<open>None\<close> is \<^verbatim>\<open>NaN\<close>. How pandas reads a non-empty text as a number is a parameter \<open>parse\<close>
  of the model, here with finite values only; the empty text never is a number.
\<close>

type_synonym parser = "string \<Rightarrow> real option"

fun to_numeric :: "parser \<Rightarrow> cell \<Rightarrow> real option" where
  "to_numeric parse (Num r) = Some r"
| "to_numeric parse (Text s) = (if s = [] then None else parse s)"
| "to_numeric parse Missing = None"

text \<open>\<^verbatim>\<open>Series.fillna(d)\<close> on one value.\<close>

definition fillna :: "real \<Rightarrow> real option \<Rightarrow> real" where
  "fillna d v = (case v of None \<Rightarrow> d | Some r \<Rightarrow> r)"

text \<open>\<^verbatim>\<open>pd.to_numeric(col, errors="coerce").fillna(0.0)\<close>, lines 164 and 165 of \<^verbatim>\<open>compute\<close>.\<close>

definition coerce :: "parser \<Rightarrow> cell \<Rightarrow> real" where
  "coerce parse c = fillna 0 (to_numeric parse c)"

section \<open>IEEE doubles\<close>

text \<open>
  A \<^verbatim>\<open>float64\<close>: \<open>Fin x\<close> is the double of value \<open>x\<close>, beside the two infinities and
  \<^verbatim>\<open>NaN\<close>. The two zeros are one value: \<^verbatim>\<open>compute\<close> divides by positive numbers only, and
  no comparison or \<^verbatim>\<open>floor\<close> tells them apart. Integer columns, which pandas holds as
  \<^verbatim>\<open>int64\<close>, are read as doubles; they agree up to \<open>2 ^ 53\<close>.
\<close>

datatype double = Fin real | PInf | NInf | NaN

text \<open>The binary exponent of a positive number: \<open>2 powi ilog2 x \<le> x < 2 powi (ilog2 x + 1)\<close>.\<close>

definition ilog2 :: "real \<Rightarrow> int" where
  "ilog2 x =
     (if 1 \<le> x then int (floorlog 2 (nat \<lfloor>x\<rfloor>)) - 1
      else - int (floorlog 2 (nat (\<lceil>1 / x\<rceil> - 1))))"

definition round_half_even :: "real \<Rightarrow> int" where
  "round_half_even y =
     (let f = \<lfloor>y\<rfloor>; d = y - of_int f
      in if d < 1 / 2 then f else if 1 / 2 < d then f + 1 else if even f then f else f + 1)"

text \<open>
  Rounding to the nearest double, ties to even: 53 significant bits, the least exponent
  \<open>- 1022\<close> (below it the subnormal numbers, multiples of \<open>2 powi (- 1074)\<close>), and an infinity
  from \<open>2 powi 1024\<close> on.
\<close>

definition round_f64 :: "real \<Rightarrow> double" where
  "round_f64 x =
     (if x = 0 then Fin 0
      else
        let e = max (ilog2 \<bar>x\<bar>) (- 1022);
            q = 2 powi (e - 52);
            y = of_int (round_half_even (x / q)) * q
        in if 2 powi 1024 \<le> \<bar>y\<bar> then (if 0 < x then PInf else NInf) else Fin y)"

text \<open>The comparisons \<^verbatim>\<open>x > 0\<close>, \<^verbatim>\<open>x < 0\<close> and \<^verbatim>\<open>x <= y\<close>; each is false on \<^verbatim>\<open>NaN\<close>.\<close>

fun gt0 :: "double \<Rightarrow> bool" where
  "gt0 (Fin x) = (0 < x)"
| "gt0 PInf = True"
| "gt0 NInf = False"
| "gt0 NaN = False"

fun lt0 :: "double \<Rightarrow> bool" where
  "lt0 (Fin x) = (x < 0)"
| "lt0 PInf = False"
| "lt0 NInf = True"
| "lt0 NaN = False"

fun dle :: "double \<Rightarrow> double \<Rightarrow> bool" where
  "dle NaN y = False"
| "dle x NaN = False"
| "dle NInf y = True"
| "dle x PInf = True"
| "dle (Fin a) (Fin b) = (a \<le> b)"
| "dle (Fin a) NInf = False"
| "dle PInf y = False"

text \<open>Product, difference and quotient of doubles.\<close>

fun fmul :: "double \<Rightarrow> double \<Rightarrow> double" where
  "fmul NaN y = NaN"
| "fmul x NaN = NaN"
| "fmul (Fin a) (Fin b) = round_f64 (a * b)"
| "fmul (Fin a) PInf = (if a = 0 then NaN else if 0 < a then PInf else NInf)"
| "fmul (Fin a) NInf = (if a = 0 then NaN else if 0 < a then NInf else PInf)"
| "fmul PInf (Fin b) = (if b = 0 then NaN else if 0 < b then PInf else NInf)"
| "fmul NInf (Fin b) = (if b = 0 then NaN else if 0 < b then NInf else PInf)"
| "fmul PInf PInf = PInf"
| "fmul PInf NInf = NInf"
| "fmul NInf PInf = NInf"
| "fmul NInf NInf = PInf"

fun fsub :: "double \<Rightarrow> double \<Rightarrow> double" where
  "fsub NaN y = NaN"
| "fsub x NaN = NaN"
| "fsub (Fin a) (Fin b) = round_f64 (a - b)"
| "fsub (Fin a) PInf = NInf"
| "fsub (Fin a) NInf = PInf"
| "fsub PInf (Fin b) = PInf"
| "fsub NInf (Fin b) = NInf"
| "fsub PInf PInf = NaN"
| "fsub PInf NInf = PInf"
| "fsub NInf PInf = NInf"
| "fsub NInf NInf = NaN"

fun fdiv :: "double \<Rightarrow> double \<Rightarrow> double" where
  "fdiv NaN y = NaN"
| "fdiv x NaN = NaN"
| "fdiv (Fin a) (Fin b) =
     (if b = 0 then (if a = 0 then NaN else if 0 < a then PInf else NInf)
      else round_f64 (a / b))"
| "fdiv (Fin a) PInf = Fin 0"
| "fdiv (Fin a) NInf = Fin 0"
| "fdiv PInf (Fin b) = (if 0 \<le> b then PInf else NInf)"
| "fdiv NInf (Fin b) = (if 0 \<le> b then NInf else PInf)"
| "fdiv PInf PInf = NaN"
| "fdiv PInf NInf = NaN"
| "fdiv NInf PInf = NaN"
| "fdiv NInf NInf = NaN"

section \<open>Tables\<close>

text \<open>
  The rows of the frames \<^verbatim>\<open>compute\<close> works on, column by column as the frame grows:
  the usage table \<^verbatim>\<open>comps\<close> with the three columns \<^verbatim>\<open>load_data\<close> gives it, the stock
  table \<^verbatim>\<open>onhand\<close>, the merged frame, and the frame with \<^verbatim>\<open>Required\<close> and
  \<^verbatim>\<open>Remaining\<close>. Component names are strings, as a worksheet holds them.
\<close>

record key_row =
  Component :: string

record stock_row = key_row +
  On_Hand :: cell

record 'n comps_row = key_row +
  Per_Case :: 'n
  UOM :: string

record 'n df_row = "'n comps_row" +
  On_Hand :: 'n

record feas_row_f64 = "double df_row" +
  Required :: double
  Remaining :: double

record feas_row = "real df_row" +
  Required :: real
  Remaining :: real

text \<open>
  The stock table handed to \<^verbatim>\<open>compute\<close>: with its \<^verbatim>\<open>On_Hand\<close> column, or with the
  \<^verbatim>\<open>Component\<close> column alone (the case line 163 provides for).
\<close>

datatype stock_table = With_On_Hand "stock_row list" | Component_only "key_row list"

text \<open>The frame after the merge: it has an \<^verbatim>\<open>On_Hand\<close> column or it has not.\<close>

datatype merged = Has_On_Hand "cell df_row list" | No_On_Hand "cell comps_row list"

datatype error =
    ValueError_headers "string list" "string list"
  | ValueError_shape
  | TypeError_to_numeric
  | ValueError_setitem
  | ValueError_floor_NaN
  | OverflowError

section \<open>The feasibility engine in exact arithmetic: \<^verbatim>\<open>compute\<close>\<close>

text \<open>
  \<^verbatim>\<open>comps.merge(onhand, on="Component", how="left")\<close>: the usage rows in their order; a
  usage row that matches no stock row appears once, with a missing \<^verbatim>\<open>On_Hand\<close>; a usage row
  that matches several stock rows appears once for each of them, in the order of the stock table.
\<close>

definition join_row :: "cell comps_row \<Rightarrow> cell \<Rightarrow> cell df_row" where
  "join_row u c = \<lparr>Component = Component u, Per_Case = Per_Case u, UOM = UOM u, On_Hand = c\<rparr>"

fun merge_left :: "cell comps_row list \<Rightarrow> stock_table \<Rightarrow> merged" where
  "merge_left comps (With_On_Hand onhand) =
     Has_On_Hand (concat (map (\<lambda>u.
       (case filter (\<lambda>s. Component s = Component u) onhand of
          [] \<Rightarrow> [join_row u Missing]
        | ms \<Rightarrow> map (\<lambda>s. join_row u (stock_row.On_Hand s)) ms)) comps))"
| "merge_left comps (Component_only onhand) =
     No_On_Hand (concat (map (\<lambda>u.
       (case filter (\<lambda>s. Component s = Component u) onhand of
          [] \<Rightarrow> [u]
        | ms \<Rightarrow> map (\<lambda>s. u) ms)) comps))"

text \<open>Line 163: \<^verbatim>\<open>if "On_Hand" not in df.columns: df["On_Hand"] = 0.0\<close>.\<close>

fun default_On_Hand :: "merged \<Rightarrow> cell df_row list" where
  "default_On_Hand (Has_On_Hand df) = df"
| "default_On_Hand (No_On_Hand df) = map (\<lambda>u. join_row u (Num 0)) df"

text \<open>Lines 164 and 165: both numeric columns coerced, \<^verbatim>\<open>NaN\<close> filled with \<open>0.0\<close>.\<close>

definition coerce_row :: "parser \<Rightarrow> cell df_row \<Rightarrow> real df_row" where
  "coerce_row parse r =
     \<lparr>Component = Component r, Per_Case = coerce parse (Per_Case r), UOM = UOM r,
      On_Hand = coerce parse (On_Hand r)\<rparr>"

text \<open>Lines 166 and 167: the columns \<^verbatim>\<open>Required\<close> and \<^verbatim>\<open>Remaining\<close>.\<close>

definition derive_row :: "real \<Rightarrow> real df_row \<Rightarrow> feas_row" where
  "derive_row cases r =
     (let required = Per_Case r * cases in
      \<lparr>Component = Component r, Per_Case = Per_Case r, UOM = UOM r, On_Hand = On_Hand r,
       Required = required, Remaining = On_Hand r - required\<rparr>)"

definition derived_rows :: "parser \<Rightarrow> cell comps_row list \<Rightarrow> stock_table \<Rightarrow> real \<Rightarrow> feas_row list" where
  "derived_rows parse comps onhand cases =
     map (derive_row cases) (map (coerce_row parse) (default_On_Hand (merge_left comps onhand)))"

text \<open>\<^verbatim>\<open>Series.min()\<close>: \<^verbatim>\<open>NaN\<close> (here \<open>None\<close>) on an empty series.\<close>

fun series_min :: "real list \<Rightarrow> real option" where
  "series_min [] = None"
| "series_min (x # xs) = (case series_min xs of None \<Rightarrow> Some x | Some m \<Rightarrow> Some (min x m))"

text \<open>\<^verbatim>\<open>int(math.floor(x))\<close>: \<^verbatim>\<open>math.floor\<close> raises \<^verbatim>\<open>ValueError\<close> on \<^verbatim>\<open>NaN\<close>.\<close>

definition math_floor :: "real option \<Rightarrow> error + int" where
  "math_floor v = (case v of None \<Rightarrow> Inl ValueError_floor_NaN | Some x \<Rightarrow> Inr \<lfloor>x\<rfloor>)"

text \<open>Lines 169 and 170.\<close>

definition max_sell_of :: "feas_row list \<Rightarrow> error + int" where
  "max_sell_of df =
     (let candidates = filter (\<lambda>r. Per_Case r > 0) df in
      if candidates \<noteq> [] then math_floor (series_min (map (\<lambda>r. On_Hand r / Per_Case r) candidates))
      else Inr 0)"

text \<open>
  \<^verbatim>\<open>compute(comps, onhand, cases)\<close>, returning \<^verbatim>\<open>(display, max_sell, shortages)\<close>.
  \<^verbatim>\<open>sort_values("Component")\<close> is modelled by a stable sort on the code-point order of the
  names; pandas does not fix the order among rows of equal name, and nothing below depends on it.
\<close>

definition compute ::
  "parser \<Rightarrow> cell comps_row list \<Rightarrow> stock_table \<Rightarrow> real \<Rightarrow> error + (feas_row list \<times> int \<times> feas_row list)" where
  "compute parse comps onhand cases =
     (let df = derived_rows parse comps onhand cases in
      case max_sell_of df of
        Inl e \<Rightarrow> Inl e
      | Inr max_sell \<Rightarrow>
          (let shortages = filter (\<lambda>r. Remaining r < 0) df;
               display = sort_key Component df
           in Inr (display, max_sell, shortages)))"

section \<open>The feasibility engine over doubles: \<^verbatim>\<open>compute\<close> as the code computes\<close>

text \<open>
  \<^verbatim>\<open>pd.to_numeric(col, errors="coerce")\<close> on one cell: \<^verbatim>\<open>NaN\<close> for what is no number. The
  parameter \<open>parse\<close> reads a non-empty text; it may return an infinity, and returns \<^verbatim>\<open>NaN\<close> for
  a text that is no number.
\<close>

type_synonym parser_f64 = "string \<Rightarrow> double"

fun to_numeric_f64 :: "parser_f64 \<Rightarrow> cell \<Rightarrow> double" where
  "to_numeric_f64 parse (Num r) = Fin r"
| "to_numeric_f64 parse (Text s) = (if s = [] then NaN else parse s)"
| "to_numeric_f64 parse Missing = NaN"

definition fillna_f64 :: "double \<Rightarrow> double \<Rightarrow> double" where
  "fillna_f64 d v = (if v = NaN then d else v)"

definition coerce_f64 :: "parser_f64 \<Rightarrow> cell \<Rightarrow> double" where
  "coerce_f64 parse c = fillna_f64 (Fin 0) (to_numeric_f64 parse c)"

text \<open>Lines 164 and 165.\<close>

definition coerce_row_f64 :: "parser_f64 \<Rightarrow> cell df_row \<Rightarrow> double df_row" where
  "coerce_row_f64 parse r =
     \<lparr>Component = Component r, Per_Case = coerce_f64 parse (Per_Case r), UOM = UOM r,
      On_Hand = coerce_f64 parse (On_Hand r)\<rparr>"

text \<open>Lines 166 and 167, \<open>cases\<close> being \<^verbatim>\<open>float(cases)\<close>.\<close>

definition derive_row_f64 :: "double \<Rightarrow> double df_row \<Rightarrow> feas_row_f64" where
  "derive_row_f64 cases r =
     (let required = fmul (Per_Case r) cases in
      \<lparr>Component = Component r, Per_Case = Per_Case r, UOM = UOM r, On_Hand = On_Hand r,
       feas_row_f64.Required = required,
       feas_row_f64.Remaining = fsub (On_Hand r) required\<rparr>)"

definition derived_rows_f64 ::
  "parser_f64 \<Rightarrow> cell comps_row list \<Rightarrow> stock_table \<Rightarrow> double \<Rightarrow> feas_row_f64 list" where
  "derived_rows_f64 parse comps onhand cases =
     map (derive_row_f64 cases)
       (map (coerce_row_f64 parse) (default_On_Hand (merge_left comps onhand)))"

text \<open>
  \<^verbatim>\<open>Series.min()\<close>: \<^verbatim>\<open>NaN\<close> values are skipped, and the result is \<^verbatim>\<open>NaN\<close> when nothing is
  left.
\<close>

fun series_min_f64 :: "double list \<Rightarrow> double" where
  "series_min_f64 [] = NaN"
| "series_min_f64 (x # xs) =
     (let m = series_min_f64 xs
      in if x = NaN then m else if m = NaN then x else if dle x m then x else m)"

text \<open>
  \<^verbatim>\<open>int(math.floor(x))\<close>: \<^verbatim>\<open>OverflowError\<close> on an infinity, \<^verbatim>\<open>ValueError\<close> on \<^verbatim>\<open>NaN\<close>.
\<close>

fun math_floor_f64 :: "double \<Rightarrow> error + int" where
  "math_floor_f64 (Fin x) = Inr \<lfloor>x\<rfloor>"
| "math_floor_f64 PInf = Inl OverflowError"
| "math_floor_f64 NInf = Inl OverflowError"
| "math_floor_f64 NaN = Inl ValueError_floor_NaN"

text \<open>Lines 169 and 170.\<close>

definition max_sell_of_f64 :: "feas_row_f64 list \<Rightarrow> error + int" where
  "max_sell_of_f64 df =
     (let candidates = filter (\<lambda>r. gt0 (Per_Case r)) df in
      if candidates \<noteq> []
      then math_floor_f64 (series_min_f64 (map (\<lambda>r. fdiv (On_Hand r) (Per_Case r)) candidates))
      else Inr 0)"

text \<open>
  \<^verbatim>\<open>compute(comps, onhand, cases)\<close> over doubles: the raise of line 170 comes before the
  shortages and the display are made.
\<close>

definition compute_f64 ::
  "parser_f64 \<Rightarrow> cell comps_row list \<Rightarrow> stock_table \<Rightarrow> double
     \<Rightarrow> error + (feas_row_f64 list \<times> int \<times> feas_row_f64 list)" where
  "compute_f64 parse comps onhand cases =
     (let df = derived_rows_f64 parse comps onhand cases in
      case max_sell_of_f64 df of
        Inl e \<Rightarrow> Inl e
      | Inr max_sell \<Rightarrow>
          (let shortages = filter (\<lambda>r. lt0 (feas_row_f64.Remaining r)) df;
               display = sort_key Component df
           in Inr (display, max_sell, shortages)))"

section \<open>Loading the two worksheets: \<^verbatim>\<open>read_ws_df\<close> and \<^verbatim>\<open>load_data\<close>\<close>

text \<open>
  A data frame as \<^verbatim>\<open>read_ws_df\<close> builds it from \<^verbatim>\<open>ws.get_all_values()\<close>: the header row
  and the rows of cells below it.
\<close>

record frame =
  columns :: "string list"
  rows :: "cell list list"

definition width :: "'a list list \<Rightarrow> nat" where
  "width rs = fold max (map length rs) 0"

text \<open>
  \<^verbatim>\<open>pd.DataFrame(rows, columns=headers)\<close> pads short rows with \<^verbatim>\<open>None\<close> up to the longest
  row and raises \<^verbatim>\<open>ValueError\<close> when that length is not the number of headers.
\<close>

definition read_ws_df :: "string list list \<Rightarrow> error + frame" where
  "read_ws_df values =
     (case values of
        [] \<Rightarrow> Inr \<lparr>columns = [], rows = []\<rparr>
      | headers # rs \<Rightarrow>
          if rs \<noteq> [] \<and> width rs \<noteq> length headers then Inl ValueError_shape
          else Inr \<lparr>columns = headers,
                    rows = map (\<lambda>r. map Text r @ replicate (length headers - length r) Missing) rs\<rparr>)"

fun col_index :: "string list \<Rightarrow> string \<Rightarrow> nat" where
  "col_index [] c = 0"
| "col_index (h # hs) c = (if h = c then 0 else Suc (col_index hs c))"

definition cell_at :: "cell list \<Rightarrow> nat \<Rightarrow> cell" where
  "cell_at r i = (if i < length r then r ! i else Missing)"

definition get_col :: "frame \<Rightarrow> string \<Rightarrow> cell list" where
  "get_col df c = map (\<lambda>r. cell_at r (col_index (columns df) c)) (rows df)"

definition set_col :: "frame \<Rightarrow> string \<Rightarrow> cell list \<Rightarrow> frame" where
  "set_col df c vs = df\<lparr>rows := map2 (\<lambda>r v. r[col_index (columns df) c := v]) (rows df) vs\<rparr>"

definition nan_cell :: "real option \<Rightarrow> cell" where
  "nan_cell v = (case v of None \<Rightarrow> Missing | Some r \<Rightarrow> Num r)"

text \<open>
  \<^verbatim>\<open>if c in df.columns: df[c] = pd.to_numeric(df[c], errors="coerce")\<close>. When the label \<open>c\<close>
  heads more than one column, \<^verbatim>\<open>df[c]\<close> is a frame and \<^verbatim>\<open>pd.to_numeric\<close> raises
  \<^verbatim>\<open>TypeError\<close>.
\<close>

definition numeric_col :: "parser \<Rightarrow> string \<Rightarrow> frame \<Rightarrow> error + frame" where
  "numeric_col parse c df =
     (if c \<in> set (columns df) then
        if 1 < count_list (columns df) c then Inl TypeError_to_numeric
        else Inr (set_col df c (map (\<lambda>v. nan_cell (to_numeric parse v)) (get_col df c)))
      else Inr df)"

text \<open>
  The text of a name cell. A worksheet cell is a string; the other cases do not arise for the
  \<^verbatim>\<open>Component\<close> and \<^verbatim>\<open>UOM\<close> columns of a rectangular sheet.
\<close>

fun text_of :: "cell \<Rightarrow> string" where
  "text_of (Text s) = s"
| "text_of (Num r) = []"
| "text_of Missing = []"

text \<open>
  \<^verbatim>\<open>load_data\<close> from the values of the two worksheets on (lines 132 to 151 of the source); opening the
  spreadsheet is outside the model. On success it returns \<^verbatim>\<open>comps\<close> and \<^verbatim>\<open>onhand\<close>. When
  the header \<^verbatim>\<open>UOM\<close> is repeated, \<^verbatim>\<open>formula["UOM"]\<close> is a frame and the assignment of line 146
  raises \<^verbatim>\<open>ValueError\<close>. The success branch reads a column by the first header of that name.
\<close>

definition load_data ::
  "parser \<Rightarrow> string list list \<Rightarrow> string list list \<Rightarrow> error + (cell comps_row list \<times> stock_row list)" where
  "load_data parse fvals ivals =
     (case read_ws_df fvals of Inl e \<Rightarrow> Inl e | Inr formula \<Rightarrow>
      case read_ws_df ivals of Inl e \<Rightarrow> Inl e | Inr inv_df \<Rightarrow>
      case numeric_col parse ''Per_Case'' formula of Inl e \<Rightarrow> Inl e | Inr formula \<Rightarrow>
      case numeric_col parse ''On_Hand'' inv_df of Inl e \<Rightarrow> Inl e | Inr inv_df \<Rightarrow>
      if \<not> {''Component'', ''Per_Case''} \<subseteq> set (columns formula)
      then Inl (ValueError_headers [''Component'', ''Per_Case''] (columns formula))
      else if 1 < count_list (columns formula) ''UOM'' then Inl ValueError_setitem
      else
        let comps = map (\<lambda>r.
                \<lparr>Component = text_of (cell_at r (col_index (columns formula) ''Component'')),
                 Per_Case = cell_at r (col_index (columns formula) ''Per_Case''),
                 UOM = (if ''UOM'' \<in> set (columns formula)
                        then text_of (cell_at r (col_index (columns formula) ''UOM'')) else [])\<rparr>)
              (rows formula);
            onhand =
              (if {''Component'', ''On_Hand''} \<subseteq> set (columns inv_df)
               then map (\<lambda>r.
                 \<lparr>Component = text_of (cell_at r (col_index (columns inv_df) ''Component'')),
                  stock_row.On_Hand = cell_at r (col_index (columns inv_df) ''On_Hand'')\<rparr>) (rows inv_df)
               else map (\<lambda>u. \<lparr>Component = Component u, stock_row.On_Hand = Num 0\<rparr>) comps)
        in Inr (comps, onhand))"

text \<open>
  The script from line 188 on: \<^verbatim>\<open>load_data\<close> inside \<^verbatim>\<open>try\<close>, whose handler reports the
  error and stops; otherwise the editable table \<^verbatim>\<open>base\<close>, the user's edit of it (the parameter
  \<open>data_editor\<close>) and \<^verbatim>\<open>compute\<close> on the edited \<^verbatim>\<open>Component\<close> and \<^verbatim>\<open>On_Hand\<close> columns.
\<close>

definition main_script ::
  "parser \<Rightarrow> string list list \<Rightarrow> string list list \<Rightarrow> (cell df_row list \<Rightarrow> cell df_row list) \<Rightarrow> real
     \<Rightarrow> error + (feas_row list \<times> int \<times> feas_row list)" where
  "main_script parse fvals ivals data_editor cases =
     (case load_data parse fvals ivals of
        Inl e \<Rightarrow> Inl e
      | Inr (comps, onhand) \<Rightarrow>
          let base = map (\<lambda>r. r\<lparr>On_Hand := Num (coerce parse (On_Hand r))\<rparr>)
                       (default_On_Hand (merge_left comps (With_On_Hand onhand)));
              edited = data_editor base
          in compute parse comps
               (With_On_Hand (map (\<lambda>r. \<lparr>Component = Component r, stock_row.On_Hand = On_Hand r\<rparr>) edited))
               cases)"

section \<open>Writing the stock back: \<^verbatim>\<open>write_onhand\<close>\<close>

text \<open>
  A worksheet is a grid of values. \<^verbatim>\<open>ws.clear()\<close> empties it; \<^verbatim>\<open>ws.update(values)\<close>
  writes \<open>values\<close> from the top left cell on and leaves every other cell as it was.
\<close>

datatype sheet_cell = Str string | Flt real

datatype ws_call = Clear | Update "sheet_cell list list"

fun overlay :: "'a list list \<Rightarrow> 'a list list \<Rightarrow> 'a list list" where
  "overlay [] ws = ws"
| "overlay (v # vs) [] = v # overlay vs []"
| "overlay (v # vs) (w # ws) = (v @ drop (length v) w) # overlay vs ws"

fun ws_apply :: "sheet_cell list list \<Rightarrow> ws_call \<Rightarrow> sheet_cell list list" where
  "ws_apply ws Clear = []"
| "ws_apply ws (Update values) = overlay values ws"

text \<open>\<^verbatim>\<open>out.astype(object).where(pd.notnull(out), "")\<close> on one cell.\<close>

fun object_or_blank :: "cell \<Rightarrow> sheet_cell" where
  "object_or_blank (Num r) = Flt r"
| "object_or_blank (Text s) = Str s"
| "object_or_blank Missing = Str []"

text \<open>Lines 155 to 157: the two columns, \<^verbatim>\<open>On_Hand\<close> coerced and filled, under their header.\<close>

definition onhand_values :: "parser \<Rightarrow> cell df_row list \<Rightarrow> sheet_cell list list" where
  "onhand_values parse edited_df =
     (let out = map (\<lambda>r. (Text (Component r), Num (coerce parse (On_Hand r)))) edited_df
      in [Str ''Component'', Str ''On_Hand''] #
         map (\<lambda>(c, h). [object_or_blank c, object_or_blank h]) out)"

text \<open>Lines 158 and 159: the calls \<^verbatim>\<open>write_onhand\<close> makes on the worksheet, in their order.\<close>

definition write_onhand_calls :: "parser \<Rightarrow> cell df_row list \<Rightarrow> ws_call list" where
  "write_onhand_calls parse edited_df = [Clear, Update (onhand_values parse edited_df)]"

definition write_onhand :: "parser \<Rightarrow> sheet_cell list list \<Rightarrow> cell df_row list \<Rightarrow> sheet_cell list list" where
  "write_onhand parse ws edited_df = foldl ws_apply ws (write_onhand_calls parse edited_df)"

section \<open>The specification's vocabulary\<close>

text \<open>
  The limiting ratio in the specification's words: the floor of the least
  \<^verbatim>\<open>On_Hand / Per_Case\<close> over the rows with \<^verbatim>\<open>Per_Case > 0\<close>, and \<open>0\<close> when there is no such row.
\<close>

definition spec_max_sellable :: "feas_row set \<Rightarrow> int" where
  "spec_max_sellable rs =
     (let ratios = (\<lambda>r. On_Hand r / Per_Case r) ` {r \<in> rs. Per_Case r > 0}
      in if ratios = {} then 0 else \<lfloor>Min ratios\<rfloor>)"

text \<open>A cell that fails numeric coercion: missing, empty, or a text that is not a number.\<close>

fun unreadable :: "parser \<Rightarrow> cell \<Rightarrow> bool" where
  "unreadable parse (Num r) = False"
| "unreadable parse (Text s) = (s = [] \<or> parse s = None)"
| "unreadable parse Missing = True"

text \<open>The same for the parser of the double model, which answers \<^verbatim>\<open>NaN\<close> for no number.\<close>

fun unreadable_f64 :: "parser_f64 \<Rightarrow> cell \<Rightarrow> bool" where
  "unreadable_f64 parse (Num r) = False"
| "unreadable_f64 parse (Text s) = (s = [] \<or> parse s = NaN)"
| "unreadable_f64 parse Missing = True"

text \<open>The tables with every such cell replaced by the number \<open>0.0\<close>.\<close>

definition repair_cell :: "parser_f64 \<Rightarrow> cell \<Rightarrow> cell" where
  "repair_cell parse c = (if unreadable_f64 parse c then Num 0 else c)"

definition repair_comps :: "parser_f64 \<Rightarrow> cell comps_row list \<Rightarrow> cell comps_row list" where
  "repair_comps parse comps = map (\<lambda>u. u\<lparr>Per_Case := repair_cell parse (Per_Case u)\<rparr>) comps"

fun repair_stock :: "parser_f64 \<Rightarrow> stock_table \<Rightarrow> stock_table" where
  "repair_stock parse (With_On_Hand onhand) =
     With_On_Hand (map (\<lambda>s. s\<lparr>stock_row.On_Hand := repair_cell parse (stock_row.On_Hand s)\<rparr>) onhand)"
| "repair_stock parse (Component_only onhand) = Component_only onhand"

text \<open>The names of a stock table.\<close>

fun stock_keys :: "stock_table \<Rightarrow> string list" where
  "stock_keys (With_On_Hand onhand) = map Component onhand"
| "stock_keys (Component_only onhand) = map Component onhand"

text \<open>The stock table that gives every listed component the quantity \<open>0.0\<close>.\<close>

definition zero_stock :: "key_row list \<Rightarrow> stock_row list" where
  "zero_stock ks = map (\<lambda>k. \<lparr>Component = Component k, stock_row.On_Hand = Num 0\<rparr>) ks"

text \<open>
  The quantities the join can give a row of name \<open>k\<close>: the coerced \<^verbatim>\<open>On_Hand\<close> of a stock row
  of that name, or \<open>0.0\<close> when there is none or the table has no such column.
\<close>

definition joined_On_Hand :: "parser_f64 \<Rightarrow> stock_table \<Rightarrow> string \<Rightarrow> double set" where
  "joined_On_Hand parse onhand k =
     (case onhand of
        With_On_Hand st \<Rightarrow>
          (if k \<in> Component ` set st
           then (\<lambda>s. coerce_f64 parse (stock_row.On_Hand s)) ` {s \<in> set st. Component s = k}
           else {Fin 0})
      | Component_only ks \<Rightarrow> {Fin 0})"

text \<open>
  The \<^verbatim>\<open>On_Hand\<close> cells that can limit production: those of the stock rows whose component
  is a usage entry with a positive \<^verbatim>\<open>Per_Case\<close>.
\<close>

fun constraining_cells :: "parser_f64 \<Rightarrow> cell comps_row list \<Rightarrow> stock_table \<Rightarrow> cell list" where
  "constraining_cells parse comps (With_On_Hand onhand) =
     map stock_row.On_Hand
       (filter (\<lambda>s. \<exists>u \<in> set comps. Component u = Component s \<and> gt0 (coerce_f64 parse (Per_Case u)))
          onhand)"
| "constraining_cells parse comps (Component_only onhand) = []"

text \<open>
  The quotients \<^verbatim>\<open>On_Hand / Per_Case\<close> of the rows with \<^verbatim>\<open>Per_Case > 0\<close>, and what it is to
  be the least of them, \<^verbatim>\<open>NaN\<close> set aside.
\<close>

definition quotients :: "feas_row_f64 set \<Rightarrow> double set" where
  "quotients rs = (\<lambda>r. fdiv (On_Hand r) (Per_Case r)) ` {r \<in> rs. gt0 (Per_Case r)}"

definition least_quotient :: "double set \<Rightarrow> double \<Rightarrow> bool" where
  "least_quotient R x = (x \<in> R \<and> x \<noteq> NaN \<and> (\<forall>y \<in> R. y \<noteq> NaN \<longrightarrow> dle x y))"

text \<open>
  A worksheet as \<^verbatim>\<open>get_all_values\<close> returns it: every row as long as the header row.
\<close>

definition sheet_columns :: "string list list \<Rightarrow> string list" where
  "sheet_columns values = (case values of [] \<Rightarrow> [] | headers # rs \<Rightarrow> headers)"

definition rectangular :: "string list list \<Rightarrow> bool" where
  "rectangular values = list_all (\<lambda>r. length r = length (sheet_columns values)) (tl values)"

section \<open>Example data\<close>

text \<open>
  One parser for the examples: unsigned decimal integers. The theorems hold for every parser.
\<close>

definition digit_of :: "char \<Rightarrow> nat option" where
  "digit_of c =
     (let n = (of_char c :: nat)
      in if of_char CHR ''0'' \<le> n \<and> n \<le> of_char CHR ''9''
         then Some (n - of_char CHR ''0'') else None)"

fun parse_digits :: "string \<Rightarrow> nat \<Rightarrow> nat option" where
  "parse_digits [] acc = Some acc"
| "parse_digits (c # cs) acc =
     (case digit_of c of None \<Rightarrow> None | Some d \<Rightarrow> parse_digits cs (10 * acc + d))"

definition decimal_parser :: parser where
  "decimal_parser s = map_option real (parse_digits s 0)"

text \<open>The example of the specification, with one cell as text and one cell that is no number.\<close>

definition ex_comps :: "cell comps_row list" where
  "ex_comps =
     [\<lparr>Component = ''Cap'', Per_Case = Num 12, UOM = ''ea''\<rparr>,
      \<lparr>Component = ''Bottle'', Per_Case = Text ''12'', UOM = ''ea''\<rparr>,
      \<lparr>Component = ''Label'', Per_Case = Text ''n/a'', UOM = []\<rparr>]"

definition ex_onhand :: "stock_row list" where
  "ex_onhand =
     [\<lparr>Component = ''Bottle'', stock_row.On_Hand = Num 100\<rparr>,
      \<lparr>Component = ''Cap'', stock_row.On_Hand = Text ''50''\<rparr>,
      \<lparr>Component = ''Label'', stock_row.On_Hand = Text []\<rparr>]"

text \<open>A stock table that lists \<^verbatim>\<open>Cap\<close> twice, and one with a negative quantity.\<close>

definition ex_onhand_twice :: "stock_row list" where
  "ex_onhand_twice =
     [\<lparr>Component = ''Bottle'', stock_row.On_Hand = Num 100\<rparr>,
      \<lparr>Component = ''Cap'', stock_row.On_Hand = Num 50\<rparr>,
      \<lparr>Component = ''Label'', stock_row.On_Hand = Num 3\<rparr>,
      \<lparr>Component = ''Cap'', stock_row.On_Hand = Num 7\<rparr>]"

definition ex_onhand_negative :: "stock_row list" where
  "ex_onhand_negative =
     [\<lparr>Component = ''Bottle'', stock_row.On_Hand = Num (- 30)\<rparr>,
      \<lparr>Component = ''Cap'', stock_row.On_Hand = Num 50\<rparr>]"

text \<open>
  The same parser for the double model, with \<^verbatim>\<open>inf\<close> read as pandas reads it.
\<close>

definition decimal_parser_f64 :: parser_f64 where
  "decimal_parser_f64 s =
     (if s = ''inf'' then PInf
      else case parse_digits s 0 of None \<Rightarrow> NaN | Some n \<Rightarrow> Fin (real n))"

text \<open>A stock table whose quotients are whole numbers, and one with infinite quantities.\<close>

definition ex_onhand_whole :: "stock_row list" where
  "ex_onhand_whole =
     [\<lparr>Component = ''Bottle'', stock_row.On_Hand = Num 96\<rparr>,
      \<lparr>Component = ''Cap'', stock_row.On_Hand = Text ''60''\<rparr>,
      \<lparr>Component = ''Label'', stock_row.On_Hand = Text []\<rparr>]"

definition ex_onhand_inf :: "stock_row list" where
  "ex_onhand_inf =
     [\<lparr>Component = ''Bottle'', stock_row.On_Hand = Text ''inf''\<rparr>,
      \<lparr>Component = ''Cap'', stock_row.On_Hand = Text ''inf''\<rparr>,
      \<lparr>Component = ''Label'', stock_row.On_Hand = Text []\<rparr>]"

text \<open>
  Finite doubles whose quotient overflows: \<open>2 ^ 1000\<close> on hand, \<open>2 powi (- 30)\<close> per case.
\<close>

definition ex_comps_tiny :: "cell comps_row list" where
  "ex_comps_tiny = [\<lparr>Component = ''Bottle'', Per_Case = Num (1 / 2 ^ 30), UOM = ''ea''\<rparr>]"

definition ex_onhand_huge :: "stock_row list" where
  "ex_onhand_huge = [\<lparr>Component = ''Bottle'', stock_row.On_Hand = Num (2 ^ 1000)\<rparr>]"

text \<open>
  The double nearest to \<open>0.1\<close>, as \<^verbatim>\<open>Per_Case\<close> of one usage entry with \<open>1.0\<close> on hand, and
  the double that \<^verbatim>\<open>0.1 * 12345678901.0\<close> evaluates to.
\<close>

definition tenth :: real where
  "tenth = 3602879701896397 / 36028797018963968"

definition tenth_times :: real where
  "tenth_times = 5178153039717991 / 4194304"

definition ex_comps_tenth :: "cell comps_row list" where
  "ex_comps_tenth = [\<lparr>Component = ''Bottle'', Per_Case = Num tenth, UOM = ''ea''\<rparr>]"

definition ex_onhand_one :: "stock_row list" where
  "ex_onhand_one = [\<lparr>Component = ''Bottle'', stock_row.On_Hand = Num 1\<rparr>]"

text \<open>A stock table with negative quantities on rows that limit nothing.\<close>

definition ex_onhand_unused :: "stock_row list" where
  "ex_onhand_unused =
     [\<lparr>Component = ''Bottle'', stock_row.On_Hand = Num 96\<rparr>,
      \<lparr>Component = ''Cap'', stock_row.On_Hand = Num 60\<rparr>,
      \<lparr>Component = ''Label'', stock_row.On_Hand = Num (- 1)\<rparr>,
      \<lparr>Component = ''Unused'', stock_row.On_Hand = Num (- 5)\<rparr>]"

definition ex_keys :: "key_row list" where
  "ex_keys = [\<lparr>Component = ''Cap''\<rparr>, \<lparr>Component = ''Bottle''\<rparr>]"

text \<open>A \<^verbatim>\<open>FORMULA\<close> sheet without the \<^verbatim>\<open>Per_Case\<close> header, and an \<^verbatim>\<open>INVENTORY\<close> sheet.\<close>

definition ex_formula_sheet :: "string list list" where
  "ex_formula_sheet = [[''Component'', ''UOM''], [''Cap'', ''ea''], [''Bottle'', ''ea'']]"

definition ex_inventory_sheet :: "string list list" where
  "ex_inventory_sheet = [[''Component'', ''On_Hand''], [''Cap'', ''50'']]"

text \<open>An edited table to write back, and a worksheet with older, wider content.\<close>

definition ex_edited :: "cell df_row list" where
  "ex_edited =
     [\<lparr>Component = ''Bottle'', Per_Case = Num 12, UOM = ''ea'', On_Hand = Num 100\<rparr>,
      \<lparr>Component = ''Cap'', Per_Case = Num 12, UOM = ''ea'', On_Hand = Missing\<rparr>]"

definition ex_worksheet :: "sheet_cell list list" where
  "ex_worksheet =
     [[Str ''Component'', Str ''On_Hand'', Str ''Note''],
      [Str ''Bottle'', Flt 1, Str ''old''],
      [Str ''Cap'', Flt 2, Str ''old''],
      [Str ''Cork'', Flt 3, Str ''old'']]"

section \<open>Facts about the engine\<close>

lemma coerce_Missing: "coerce parse Missing = 0"
  by (simp add: coerce_def fillna_def)

lemma coerce_Num: "coerce parse (Num x) = x"
  by (simp add: coerce_def fillna_def)

lemma unreadable_coerce: "unreadable parse c \<Longrightarrow> coerce parse c = 0"
  by (cases c) (auto simp: coerce_def fillna_def)

lemma derive_coerce_join:
  "derive_row cases (coerce_row parse (join_row u c)) =
     \<lparr>Component = Component u, Per_Case = coerce parse (Per_Case u), UOM = UOM u,
      On_Hand = coerce parse c, Required = coerce parse (Per_Case u) * cases,
      Remaining = coerce parse c - coerce parse (Per_Case u) * cases\<rparr>"
  by (simp add: derive_row_def coerce_row_def join_row_def Let_def)

text \<open>The derived rows, usage row by usage row.\<close>

lemma derived_rows_With:
  "derived_rows parse comps (With_On_Hand st) cases =
     concat (map (\<lambda>u. case filter (\<lambda>s. Component s = Component u) st of
         [] \<Rightarrow> [derive_row cases (coerce_row parse (join_row u Missing))]
       | ms \<Rightarrow> map (\<lambda>s. derive_row cases (coerce_row parse (join_row u (stock_row.On_Hand s)))) ms) comps)"
  by (induction comps) (auto simp: derived_rows_def split: list.splits)

lemma derived_rows_Only:
  "derived_rows parse comps (Component_only ks) cases =
     concat (map (\<lambda>u. case filter (\<lambda>s. Component s = Component u) ks of
         [] \<Rightarrow> [derive_row cases (coerce_row parse (join_row u (Num 0)))]
       | ms \<Rightarrow> map (\<lambda>s. derive_row cases (coerce_row parse (join_row u (Num 0)))) ms) comps)"
  by (induction comps) (auto simp: derived_rows_def split: list.splits)

text \<open>Where a derived row comes from: a usage row and the cell the join gave it.\<close>

lemma derived_row_cases:
  assumes "r \<in> set (derived_rows parse comps onhand cases)"
  obtains u c where "u \<in> set comps" "r = derive_row cases (coerce_row parse (join_row u c))"
    "(case onhand of
        With_On_Hand st \<Rightarrow>
          (\<exists>s\<in>set st. Component s = Component u \<and> c = stock_row.On_Hand s) \<or>
          (Component u \<notin> Component ` set st \<and> c = Missing)
      | Component_only ks \<Rightarrow> c = Num 0)"
proof (cases onhand)
  case (With_On_Hand st)
  from assms obtain u where u: "u \<in> set comps"
    and r: "r \<in> set (case filter (\<lambda>s. Component s = Component u) st of
         [] \<Rightarrow> [derive_row cases (coerce_row parse (join_row u Missing))]
       | ms \<Rightarrow> map (\<lambda>s. derive_row cases (coerce_row parse (join_row u (stock_row.On_Hand s)))) ms)"
    unfolding With_On_Hand derived_rows_With by auto
  show ?thesis
  proof (cases "filter (\<lambda>s. Component s = Component u) st")
    case Nil
    then have "Component u \<notin> Component ` set st"
      by (auto simp: filter_empty_conv)
    with r Nil u that [of u Missing] With_On_Hand show ?thesis by simp
  next
    case (Cons m ms)
    with r obtain s where "s \<in> set (filter (\<lambda>s. Component s = Component u) st)"
      "r = derive_row cases (coerce_row parse (join_row u (stock_row.On_Hand s)))"
      by auto
    with u that [of u "stock_row.On_Hand s"] With_On_Hand show ?thesis by auto
  qed
next
  case (Component_only ks)
  from assms obtain u where u: "u \<in> set comps"
    and r: "r \<in> set (case filter (\<lambda>s. Component s = Component u) ks of
         [] \<Rightarrow> [derive_row cases (coerce_row parse (join_row u (Num 0)))]
       | ms \<Rightarrow> map (\<lambda>s. derive_row cases (coerce_row parse (join_row u (Num 0)))) ms)"
    unfolding Component_only derived_rows_Only by auto
  then have "r = derive_row cases (coerce_row parse (join_row u (Num 0)))"
    by (auto split: list.splits)
  with u that [of u "Num 0"] Component_only show ?thesis by simp
qed

text \<open>\<^verbatim>\<open>Series.min\<close> is the least element of a non-empty series.\<close>

lemma series_min_Min: "xs \<noteq> [] \<Longrightarrow> series_min xs = Some (Min (set xs))"
proof (induction xs)
  case Nil
  then show ?case by simp
next
  case (Cons x xs)
  show ?case
  proof (cases "xs = []")
    case True
    then show ?thesis by simp
  next
    case False
    with Cons.IH have "series_min xs = Some (Min (set xs))" by simp
    with False show ?thesis by simp
  qed
qed

text \<open>The guard of line 170 keeps \<^verbatim>\<open>math.floor\<close> away from \<^verbatim>\<open>NaN\<close>.\<close>

lemma max_sell_of_spec: "max_sell_of df = Inr (spec_max_sellable (set df))"
proof -
  let ?c = "filter (\<lambda>r. Per_Case r > 0) df"
  let ?f = "\<lambda>r::feas_row. On_Hand r / Per_Case r"
  have img: "set (map ?f ?c) = ?f ` {r \<in> set df. Per_Case r > 0}" by auto
  show ?thesis
  proof (cases "?c = []")
    case True
    then have "{r \<in> set df. Per_Case r > 0} = {}"
      by (auto simp: filter_empty_conv)
    with True show ?thesis
      by (simp add: max_sell_of_def spec_max_sellable_def)
  next
    case False
    then have ne: "map ?f ?c \<noteq> []" by simp
    from False have "?f ` {r \<in> set df. Per_Case r > 0} \<noteq> {}"
      by (auto simp: filter_empty_conv)
    with False series_min_Min [OF ne] img show ?thesis
      by (auto simp: max_sell_of_def spec_max_sellable_def math_floor_def Let_def)
  qed
qed

lemma compute_eq:
  "compute parse comps onhand cases =
     Inr (sort_key Component (derived_rows parse comps onhand cases),
          spec_max_sellable (set (derived_rows parse comps onhand cases)),
          filter (\<lambda>r. Remaining r < 0) (derived_rows parse comps onhand cases))"
  by (simp add: compute_def max_sell_of_spec Let_def)

text \<open>The examples, evaluated.\<close>

lemma ex_compute_5:
  "compute decimal_parser ex_comps (With_On_Hand ex_onhand) 5 = Inr
    ([\<lparr>Component = ''Bottle'', Per_Case = 12, UOM = ''ea'', On_Hand = 100, Required = 60, Remaining = 40\<rparr>,
      \<lparr>Component = ''Cap'', Per_Case = 12, UOM = ''ea'', On_Hand = 50, Required = 60, Remaining = - 10\<rparr>,
      \<lparr>Component = ''Label'', Per_Case = 0, UOM = [], On_Hand = 0, Required = 0, Remaining = 0\<rparr>],
     4,
     [\<lparr>Component = ''Cap'', Per_Case = 12, UOM = ''ea'', On_Hand = 50, Required = 60, Remaining = - 10\<rparr>])"
  by code_simp


section \<open>Properties of \<^verbatim>\<open>compute\<close>\<close>

text \<open>
  C4. For every input, \<^verbatim>\<open>shortages\<close> holds exactly the derived rows whose \<^verbatim>\<open>Remaining\<close> is
  strictly negative, each as often as it occurs in \<^verbatim>\<open>display\<close> (a row with \<^verbatim>\<open>Remaining\<close>
  zero is not among them), and every shortage row is a row of \<^verbatim>\<open>display\<close>.
\<close>

theorem compute_shortages_negative_remaining:
  "\<exists>display max_sell shortages.
     compute parse comps onhand cases = Inr (display, max_sell, shortages) \<and>
     mset display = mset (derived_rows parse comps onhand cases) \<and>
     shortages = filter (\<lambda>r. Remaining r < 0) (derived_rows parse comps onhand cases) \<and>
     mset shortages = filter_mset (\<lambda>r. Remaining r < 0) (mset display) \<and>
     set shortages = {r \<in> set display. Remaining r < 0} \<and>
     set shortages \<subseteq> set display"
proof -
  let ?df = "derived_rows parse comps onhand cases"
  have perm: "mset (sort_key Component ?df) = mset ?df"
    by simp
  have "mset (filter (\<lambda>r. Remaining r < 0) ?df) =
        filter_mset (\<lambda>r. Remaining r < 0) (mset (sort_key Component ?df))"
    by (simp only: perm mset_filter)
  moreover have "set (filter (\<lambda>r. Remaining r < 0) ?df) =
        {r \<in> set (sort_key Component ?df). Remaining r < 0}"
    by auto
  ultimately show ?thesis
    by (auto simp: compute_eq)
qed

theorem compute_shortages_negative_remaining_witness:
  "\<exists>display max_sell shortages.
     compute decimal_parser ex_comps (With_On_Hand ex_onhand) 5 = Inr (display, max_sell, shortages) \<and>
     set shortages \<subseteq> set display \<and>
     shortages =
       [\<lparr>Component = ''Cap'', Per_Case = 12, UOM = ''ea'', On_Hand = 50, Required = 60, Remaining = - 10\<rparr>] \<and>
     \<lparr>Component = ''Label'', Per_Case = 0, UOM = [], On_Hand = 0, Required = 0, Remaining = 0\<rparr>
       \<in> set display - set shortages"
proof -
  from compute_shortages_negative_remaining [of decimal_parser ex_comps "With_On_Hand ex_onhand" 5]
  obtain display max_sell shortages
    where c: "compute decimal_parser ex_comps (With_On_Hand ex_onhand) 5 = Inr (display, max_sell, shortages)"
      and s: "set shortages \<subseteq> set display"
    by blast
  from c have d: "display =
      [\<lparr>Component = ''Bottle'', Per_Case = 12, UOM = ''ea'', On_Hand = 100, Required = 60, Remaining = 40\<rparr>,
       \<lparr>Component = ''Cap'', Per_Case = 12, UOM = ''ea'', On_Hand = 50, Required = 60, Remaining = - 10\<rparr>,
       \<lparr>Component = ''Label'', Per_Case = 0, UOM = [], On_Hand = 0, Required = 0, Remaining = 0\<rparr>]"
    and e: "shortages =
      [\<lparr>Component = ''Cap'', Per_Case = 12, UOM = ''ea'', On_Hand = 50, Required = 60, Remaining = - 10\<rparr>]"
    by (simp_all add: ex_compute_5)
  have "\<lparr>Component = ''Label'', Per_Case = 0, UOM = [], On_Hand = 0, Required = 0, Remaining = 0\<rparr>
       \<in> set display - set shortages"
    unfolding d e by simp
  with c s e show ?thesis by blast
qed

lemma derived_rows_zero_stock:
  "derived_rows parse comps (Component_only ks) cases =
   derived_rows parse comps (With_On_Hand (zero_stock ks)) cases"
proof -
  have "(case filter (\<lambda>s. Component s = Component u) ks of
         [] \<Rightarrow> [derive_row cases (coerce_row parse (join_row u (Num 0)))]
       | ms \<Rightarrow> map (\<lambda>s. derive_row cases (coerce_row parse (join_row u (Num 0)))) ms) =
        (case filter (\<lambda>s. Component s = Component u) (zero_stock ks) of
         [] \<Rightarrow> [derive_row cases (coerce_row parse (join_row u Missing))]
       | ms \<Rightarrow> map (\<lambda>s. derive_row cases (coerce_row parse (join_row u (stock_row.On_Hand s)))) ms)" for u
    by (cases "filter (\<lambda>s. Component s = Component u) ks")
      (simp_all add: zero_stock_def filter_map comp_def derive_coerce_join coerce_Missing coerce_Num)
  then show ?thesis
    by (simp add: derived_rows_With derived_rows_Only)
qed

text \<open>
  C10. Called with a stock table that has the \<^verbatim>\<open>Component\<close> column and no \<^verbatim>\<open>On_Hand\<close>
  column, \<^verbatim>\<open>compute\<close> returns, every row it returns has \<^verbatim>\<open>On_Hand\<close> \<open>0.0\<close>, and the result is
  the one for the stock table that gives each of these components the quantity \<open>0.0\<close>.
\<close>

theorem compute_without_On_Hand_column:
  "\<exists>display max_sell shortages.
     compute parse comps (Component_only ks) cases = Inr (display, max_sell, shortages) \<and>
     compute parse comps (With_On_Hand (zero_stock ks)) cases = Inr (display, max_sell, shortages) \<and>
     list_all (\<lambda>r. On_Hand r = 0) display"
proof -
  have "On_Hand r = 0" if "r \<in> set (derived_rows parse comps (Component_only ks) cases)" for r
    using that by (rule derived_row_cases) (simp add: derive_coerce_join coerce_Num)
  then show ?thesis
    by (simp add: compute_eq derived_rows_zero_stock [symmetric] list_all_iff)
qed

theorem compute_without_On_Hand_column_witness:
  "compute decimal_parser ex_comps (Component_only ex_keys) 2 =
     compute decimal_parser ex_comps (With_On_Hand (zero_stock ex_keys)) 2 \<and>
   (\<exists>display max_sell shortages.
     compute decimal_parser ex_comps (Component_only ex_keys) 2 = Inr (display, max_sell, shortages) \<and>
     map On_Hand display = [0, 0, 0] \<and> max_sell = 0)"
proof -
  from compute_without_On_Hand_column [of decimal_parser ex_comps ex_keys 2]
  obtain display max_sell shortages
    where c: "compute decimal_parser ex_comps (Component_only ex_keys) 2 = Inr (display, max_sell, shortages)"
      and z: "compute decimal_parser ex_comps (With_On_Hand (zero_stock ex_keys)) 2 =
        Inr (display, max_sell, shortages)"
    by blast
  have "compute decimal_parser ex_comps (Component_only ex_keys) 2 = Inr
    ([\<lparr>Component = ''Bottle'', Per_Case = 12, UOM = ''ea'', On_Hand = 0, Required = 24, Remaining = - 24\<rparr>,
      \<lparr>Component = ''Cap'', Per_Case = 12, UOM = ''ea'', On_Hand = 0, Required = 24, Remaining = - 24\<rparr>,
      \<lparr>Component = ''Label'', Per_Case = 0, UOM = [], On_Hand = 0, Required = 0, Remaining = 0\<rparr>],
     0,
     [\<lparr>Component = ''Cap'', Per_Case = 12, UOM = ''ea'', On_Hand = 0, Required = 24, Remaining = - 24\<rparr>,
      \<lparr>Component = ''Bottle'', Per_Case = 12, UOM = ''ea'', On_Hand = 0, Required = 24, Remaining = - 24\<rparr>])"
    by code_simp
  with c have "map On_Hand display = [0, 0, 0] \<and> max_sell = 0"
    by auto
  with c z show ?thesis
    by (intro conjI exI [of _ display] exI [of _ max_sell] exI [of _ shortages]) simp_all
qed

lemma count_list_map_filter: "count_list (map f xs) k = length (filter (\<lambda>s. f s = k) xs)"
  by (induction xs) auto

text \<open>How many rows the left join makes: one for a usage row without a match, else one for each match.\<close>

lemma derived_rows_length:
  "length (derived_rows parse comps onhand cases) =
     sum_list (map (\<lambda>u. max 1 (count_list (stock_keys onhand) (Component u))) comps)"
proof (cases onhand)
  case (With_On_Hand st)
  have "length (case filter (\<lambda>s. Component s = Component u) st of
         [] \<Rightarrow> [derive_row cases (coerce_row parse (join_row u Missing))]
       | ms \<Rightarrow> map (\<lambda>s. derive_row cases (coerce_row parse (join_row u (stock_row.On_Hand s)))) ms)
       = max 1 (length (filter (\<lambda>s. Component s = Component u) st))" for u
    by (cases "filter (\<lambda>s. Component s = Component u) st") simp_all
  then show ?thesis
    by (simp add: With_On_Hand derived_rows_With length_concat comp_def count_list_map_filter)
next
  case (Component_only ks)
  have "length (case filter (\<lambda>s. Component s = Component u) ks of
         [] \<Rightarrow> [derive_row cases (coerce_row parse (join_row u (Num 0)))]
       | ms \<Rightarrow> map (\<lambda>s. derive_row cases (coerce_row parse (join_row u (Num 0)))) ms)
       = max 1 (length (filter (\<lambda>s. Component s = Component u) ks))" for u
    by (cases "filter (\<lambda>s. Component s = Component u) ks") simp_all
  then show ?thesis
    by (simp add: Component_only derived_rows_Only length_concat comp_def count_list_map_filter)
qed

lemma derived_rows_unique_keys:
  assumes "\<forall>u\<in>set comps. count_list (stock_keys onhand) (Component u) \<le> 1"
  shows "map Component (derived_rows parse comps onhand cases) = map Component comps"
  using assms
proof (induction comps)
  case Nil
  show ?case by (cases onhand) (simp_all add: derived_rows_With derived_rows_Only)
next
  case (Cons u comps)
  then have IH: "map Component (derived_rows parse comps onhand cases) = map Component comps"
    and u: "count_list (stock_keys onhand) (Component u) \<le> 1"
    by simp_all
  show ?case
  proof (cases onhand)
    case (With_On_Hand st)
    from u have "length (filter (\<lambda>s. Component s = Component u) st) \<le> 1"
      by (simp add: With_On_Hand count_list_map_filter)
    then have "map Component (case filter (\<lambda>s. Component s = Component u) st of
         [] \<Rightarrow> [derive_row cases (coerce_row parse (join_row u Missing))]
       | ms \<Rightarrow> map (\<lambda>s. derive_row cases (coerce_row parse (join_row u (stock_row.On_Hand s)))) ms)
       = [Component u]"
      by (cases "filter (\<lambda>s. Component s = Component u) st") (simp_all add: derive_coerce_join)
    with IH show ?thesis
      by (simp add: With_On_Hand derived_rows_With)
  next
    case (Component_only ks)
    from u have "length (filter (\<lambda>s. Component s = Component u) ks) \<le> 1"
      by (simp add: Component_only count_list_map_filter)
    then have "map Component (case filter (\<lambda>s. Component s = Component u) ks of
         [] \<Rightarrow> [derive_row cases (coerce_row parse (join_row u (Num 0)))]
       | ms \<Rightarrow> map (\<lambda>s. derive_row cases (coerce_row parse (join_row u (Num 0)))) ms)
       = [Component u]"
      by (cases "filter (\<lambda>s. Component s = Component u) ks") (simp_all add: derive_coerce_join)
    with IH show ?thesis
      by (simp add: Component_only derived_rows_Only)
  qed
qed

text \<open>
  C2, as stated, fails: with three usage entries, each named in the stock table, and \<^verbatim>\<open>Cap\<close>
  named there twice, \<^verbatim>\<open>display\<close> has four rows.
\<close>

theorem compute_display_rows_counterexample:
  "compute decimal_parser ex_comps (With_On_Hand ex_onhand_twice) 0 = Inr
    ([\<lparr>Component = ''Bottle'', Per_Case = 12, UOM = ''ea'', On_Hand = 100, Required = 0, Remaining = 100\<rparr>,
      \<lparr>Component = ''Cap'', Per_Case = 12, UOM = ''ea'', On_Hand = 50, Required = 0, Remaining = 50\<rparr>,
      \<lparr>Component = ''Cap'', Per_Case = 12, UOM = ''ea'', On_Hand = 7, Required = 0, Remaining = 7\<rparr>,
      \<lparr>Component = ''Label'', Per_Case = 0, UOM = [], On_Hand = 3, Required = 0, Remaining = 3\<rparr>],
     0, []) \<and>
   length ex_comps = 3 \<and>
   set (map Component ex_comps) \<subseteq> set (stock_keys (With_On_Hand ex_onhand_twice))"
  by code_simp

text \<open>
  C2, amended. For every usage table and stock table in which no component name of the usage
  table occurs more than once in the stock table (it may be absent from it), \<^verbatim>\<open>compute\<close>
  returns a \<^verbatim>\<open>display\<close> with exactly one row per usage entry: as many rows as the usage
  table, with the same component names, each row carrying \<^verbatim>\<open>Component\<close>, \<^verbatim>\<open>UOM\<close>,
  \<^verbatim>\<open>On_Hand\<close>, \<^verbatim>\<open>Per_Case\<close>, \<^verbatim>\<open>Required\<close> and \<^verbatim>\<open>Remaining\<close>.
\<close>

theorem compute_one_row_per_usage_entry:
  assumes "\<forall>u\<in>set comps. count_list (stock_keys onhand) (Component u) \<le> 1"
  shows "\<exists>display max_sell shortages.
     compute parse comps onhand cases = Inr (display, max_sell, shortages) \<and>
     length display = length comps \<and>
     mset (map Component display) = mset (map Component comps)"
proof -
  let ?df = "derived_rows parse comps onhand cases"
  from assms have eq: "map Component ?df = map Component comps"
    by (rule derived_rows_unique_keys)
  then have "length ?df = length comps"
    by (metis length_map)
  moreover have "mset (map Component (sort_key Component ?df)) = mset (map Component ?df)"
    by simp
  ultimately show ?thesis
    using eq by (simp add: compute_eq)
qed

theorem compute_one_row_per_usage_entry_witness:
  "list_all (\<lambda>u. count_list (stock_keys (With_On_Hand ex_onhand)) (Component u) \<le> 1) ex_comps \<and>
   (\<exists>display max_sell shortages.
     compute decimal_parser ex_comps (With_On_Hand ex_onhand) 5 = Inr (display, max_sell, shortages) \<and>
     length display = length ex_comps \<and>
     map Component display = [''Bottle'', ''Cap'', ''Label''])"
proof -
  have h: "\<forall>u\<in>set ex_comps. count_list (stock_keys (With_On_Hand ex_onhand)) (Component u) \<le> 1"
    by code_simp
  from compute_one_row_per_usage_entry [OF h, of decimal_parser 5]
  obtain display max_sell shortages
    where c: "compute decimal_parser ex_comps (With_On_Hand ex_onhand) 5 = Inr (display, max_sell, shortages)"
      and l: "length display = length ex_comps"
    by blast
  from c have "map Component display = [''Bottle'', ''Cap'', ''Label'']"
    by (auto simp: ex_compute_5)
  with c l h show ?thesis
    by (intro conjI exI [of _ display] exI [of _ max_sell] exI [of _ shortages])
      (simp_all add: list_all_iff)
qed






section \<open>Facts about the rounding\<close>

lemma ilog2_lower:
  assumes "0 < x"
  shows "2 powi ilog2 x \<le> x"
proof (cases "1 \<le> x")
  case True
  let ?n = "nat \<lfloor>x\<rfloor>"
  from True have n: "0 < ?n" by simp
  from floorlog_bounds [OF n, of 2] have b: "2 ^ (floorlog 2 ?n - 1) \<le> ?n" by simp
  from n have "floorlog 2 ?n \<noteq> 0"
    by (simp add: floorlog_eq_zero_iff)
  then have "ilog2 x = int (floorlog 2 ?n - 1)"
    using True by (simp add: ilog2_def)
  then have "2 powi ilog2 x = (2::real) ^ (floorlog 2 ?n - 1)" by simp
  also have "\<dots> = real (2 ^ (floorlog 2 ?n - 1))" by simp
  also have "\<dots> \<le> real ?n" using b by (simp only: of_nat_le_iff)
  also have "\<dots> \<le> x" using True by simp
  finally show ?thesis .
next
  case False
  with assms have y: "1 < 1 / x" by simp
  let ?n = "nat (\<lceil>1 / x\<rceil> - 1)"
  let ?k = "floorlog 2 ?n"
  from y have c2: "2 \<le> \<lceil>1 / x\<rceil>" by linarith
  then have n: "0 < ?n" by simp
  from c2 have "0 \<le> \<lceil>1 / x\<rceil> - 1" by linarith
  then have "real ?n = of_int (\<lceil>1 / x\<rceil> - 1)" by (rule of_nat_nat)
  then have rn: "real ?n = of_int \<lceil>1 / x\<rceil> - 1" by simp
  from floorlog_bounds [OF n, of 2] have b: "?n < 2 ^ ?k" by simp
  have "1 / x \<le> of_int \<lceil>1 / x\<rceil>" by simp
  also have "\<dots> = real ?n + 1" using rn by simp
  also have "\<dots> = real (?n + 1)" by simp
  also have "\<dots> \<le> real (2 ^ ?k)"
  proof (rule of_nat_mono)
    from b show "?n + 1 \<le> 2 ^ ?k" by linarith
  qed
  finally have "1 / x \<le> 2 ^ ?k" by simp
  with assms have "1 / 2 ^ ?k \<le> x"
    by (simp add: field_simps)
  moreover have "ilog2 x = - int ?k" using False by (simp add: ilog2_def)
  ultimately show ?thesis
    by (simp add: power_int_minus_divide)
qed

lemma ilog2_upper:
  assumes "0 < x"
  shows "x < 2 powi (ilog2 x + 1)"
proof (cases "1 \<le> x")
  case True
  let ?n = "nat \<lfloor>x\<rfloor>"
  from True have n: "0 < ?n" by simp
  from floorlog_bounds [OF n, of 2] have b: "?n < 2 ^ floorlog 2 ?n" by simp
  have "ilog2 x + 1 = int (floorlog 2 ?n)"
    using True by (simp add: ilog2_def)
  then have e: "2 powi (ilog2 x + 1) = (2::real) ^ floorlog 2 ?n" by simp
  have "x < of_int \<lfloor>x\<rfloor> + 1" by linarith
  also have "\<dots> = real (?n + 1)" using True by simp
  also have "\<dots> \<le> real (2 ^ floorlog 2 ?n)"
  proof (rule of_nat_mono)
    from b show "?n + 1 \<le> 2 ^ floorlog 2 ?n" by linarith
  qed
  finally show ?thesis using e by simp
next
  case False
  with assms have y: "1 < 1 / x" by simp
  let ?n = "nat (\<lceil>1 / x\<rceil> - 1)"
  let ?k = "floorlog 2 ?n"
  from y have c2: "2 \<le> \<lceil>1 / x\<rceil>" by linarith
  then have n: "0 < ?n" by simp
  from c2 have "0 \<le> \<lceil>1 / x\<rceil> - 1" by linarith
  then have "real ?n = of_int (\<lceil>1 / x\<rceil> - 1)" by (rule of_nat_nat)
  then have rn: "real ?n = of_int \<lceil>1 / x\<rceil> - 1" by simp
  from floorlog_bounds [OF n, of 2] have b: "2 ^ (?k - 1) \<le> ?n" by simp
  from n have "?k \<noteq> 0"
    by (simp add: floorlog_eq_zero_iff)
  then have k: "0 < ?k" by simp
  have "real (2 ^ (?k - 1)) \<le> real ?n" using b by (simp only: of_nat_le_iff)
  also have "\<dots> = of_int \<lceil>1 / x\<rceil> - 1" using rn by simp
  also have "\<dots> < 1 / x" by linarith
  finally have "2 ^ (?k - 1) < 1 / x" by simp
  with assms have "x < 1 / 2 ^ (?k - 1)"
    by (simp add: field_simps)
  moreover have "ilog2 x + 1 = - int (?k - 1)" using False k by (simp add: ilog2_def)
  ultimately show ?thesis
    by (simp add: power_int_minus_divide)
qed

lemma ilog2_unique:
  assumes "0 < x" "2 powi e \<le> x" "x < 2 powi (e + 1)"
  shows "ilog2 x = e"
proof -
  have "ilog2 x < e + 1"
  proof (rule ccontr)
    assume "\<not> ilog2 x < e + 1"
    then have "(2::real) powi (e + 1) \<le> 2 powi ilog2 x"
      by (intro power_int_increasing) simp_all
    with ilog2_lower [OF assms(1)] assms(3) show False by simp
  qed
  moreover have "e < ilog2 x + 1"
  proof (rule ccontr)
    assume "\<not> e < ilog2 x + 1"
    then have "(2::real) powi (ilog2 x + 1) \<le> 2 powi e"
      by (intro power_int_increasing) simp_all
    with ilog2_upper [OF assms(1)] assms(2) show False by simp
  qed
  ultimately show ?thesis by simp
qed

lemma round_half_even_error: "\<bar>of_int (round_half_even y) - y\<bar> \<le> 1 / 2"
  unfolding round_half_even_def Let_def by (auto; linarith)

lemma round_half_even_of_int: "round_half_even (of_int n) = n"
  by (simp add: round_half_even_def)

lemma pow2_pos: "0 < (2::real) powi k"
  by (simp add: power_int_def)

lemma pow2_half: "(2::real) powi (e - 52) / 2 = 2 powi (e - 53)"
proof -
  have "(2::real) powi (e - 52) = 2 powi ((e - 53) + 1)" by simp
  also have "\<dots> = 2 powi (e - 53) * 2" by (subst power_int_add) simp_all
  finally show ?thesis by simp
qed

lemma pow2_split: "(2::real) powi (e - 53) = 2 powi e * 2 powi (- 53)"
proof -
  have "(2::real) powi (e - 53) = 2 powi (e + (- 53))" by simp
  also have "\<dots> = 2 powi e * 2 powi (- 53)" by (subst power_int_add) simp_all
  finally show ?thesis .
qed

text \<open>The rounded value lies within half a unit of the last place.\<close>

lemma round_quantum_error:
  assumes "0 < q"
  shows "\<bar>of_int (round_half_even (x / q)) * q - x\<bar> \<le> q / 2"
proof -
  have "of_int (round_half_even (x / q)) * q - x = (of_int (round_half_even (x / q)) - x / q) * q"
    using assms by (simp add: field_simps)
  then have "\<bar>of_int (round_half_even (x / q)) * q - x\<bar> = \<bar>of_int (round_half_even (x / q)) - x / q\<bar> * q"
    using assms by (simp add: abs_mult)
  also have "\<dots> \<le> (1 / 2) * q"
    using assms round_half_even_error [of "x / q"] by (intro mult_right_mono) simp_all
  finally show ?thesis by simp
qed

lemma round_f64_error:
  assumes "round_f64 x = Fin y"
  shows "\<bar>y - x\<bar> \<le> 2 powi (- 53) * \<bar>x\<bar> + 2 powi (- 1075)"
proof (cases "x = 0")
  case True
  with assms show ?thesis by (simp add: round_f64_def)
next
  case False
  define e where "e = max (ilog2 \<bar>x\<bar>) (- 1022)"
  define q where "q = (2::real) powi (e - 52)"
  have q: "0 < q" by (simp add: q_def pow2_pos)
  from assms False have y: "y = of_int (round_half_even (x / q)) * q"
    by (simp add: round_f64_def Let_def e_def q_def split: if_splits)
  have "\<bar>y - x\<bar> \<le> q / 2"
    unfolding y by (rule round_quantum_error [OF q])
  also have "q / 2 = 2 powi (e - 53)"
    by (simp add: q_def pow2_half)
  also have "\<dots> \<le> 2 powi (- 53) * \<bar>x\<bar> + 2 powi (- 1075)"
  proof (cases "- 1022 \<le> ilog2 \<bar>x\<bar>")
    case True
    then have "e = ilog2 \<bar>x\<bar>" by (simp add: e_def)
    moreover from False have "2 powi ilog2 \<bar>x\<bar> \<le> \<bar>x\<bar>"
      by (intro ilog2_lower) simp
    ultimately have "2 powi e \<le> \<bar>x\<bar>" by simp
    then have "2 powi e * 2 powi (- 53) \<le> \<bar>x\<bar> * 2 powi (- 53)"
      by (intro mult_right_mono) (simp_all add: less_imp_le [OF pow2_pos])
    then have "2 powi (e - 53) \<le> 2 powi (- 53) * \<bar>x\<bar>"
      by (simp add: pow2_split mult.commute)
    moreover have "0 \<le> (2::real) powi (- 1075)" by (rule less_imp_le [OF pow2_pos])
    ultimately show ?thesis by linarith
  next
    case False
    then have "e = - 1022" by (simp add: e_def)
    then have "(2::real) powi (e - 53) = 2 powi (- 1075)" by simp
    moreover have "0 \<le> 2 powi (- 53) * \<bar>x\<bar>"
      by (intro mult_nonneg_nonneg less_imp_le [OF pow2_pos]) simp
    ultimately show ?thesis by linarith
  qed
  finally show ?thesis .
qed

text \<open>A number in the normal range: the rounding at its own exponent.\<close>

lemma round_f64_normal:
  assumes "2 powi e \<le> \<bar>x\<bar>" "\<bar>x\<bar> < 2 powi (e + 1)" "- 1022 \<le> e" "e \<le> 1022"
  shows "round_f64 x = Fin (of_int (round_half_even (x / 2 powi (e - 52))) * 2 powi (e - 52))"
proof -
  from assms(1) pow2_pos [of e] have x: "0 < \<bar>x\<bar>" by linarith
  then have nz: "x \<noteq> 0" by simp
  from x assms(1,2) have "ilog2 \<bar>x\<bar> = e" by (rule ilog2_unique)
  with assms(3) have e: "max (ilog2 \<bar>x\<bar>) (- 1022) = e" by simp
  let ?q = "(2::real) powi (e - 52)"
  let ?y = "of_int (round_half_even (x / ?q)) * ?q"
  have "\<bar>?y - x\<bar> \<le> ?q / 2"
    by (rule round_quantum_error [OF pow2_pos])
  then have "\<bar>?y\<bar> \<le> \<bar>x\<bar> + 2 powi (e - 53)"
    by (simp add: pow2_half)
  also have "\<dots> < 2 powi (e + 1) + 2 powi (e + 1)"
  proof -
    have "(2::real) powi (e - 53) \<le> 2 powi (e + 1)"
      by (intro power_int_increasing) simp_all
    with assms(2) show ?thesis by linarith
  qed
  also have "\<dots> = 2 powi (e + 2)"
  proof -
    have "(2::real) powi (e + 2) = 2 powi ((e + 1) + 1)" by (simp add: add.assoc)
    also have "\<dots> = 2 powi (e + 1) * 2" by (subst power_int_add) simp_all
    finally show ?thesis by simp
  qed
  also have "\<dots> \<le> 2 powi 1024"
    using assms(4) by (intro power_int_increasing) simp_all
  finally have "\<not> 2 powi 1024 \<le> \<bar>?y\<bar>" by simp
  with nz e show ?thesis
    by (simp add: round_f64_def Let_def)
qed

text \<open>Every double is its own rounding.\<close>

lemma round_f64_exact:
  assumes "\<bar>m\<bar> < 2 ^ 53" "- 1074 \<le> k" "k \<le> 971"
  shows "round_f64 (of_int m * 2 powi k) = Fin (of_int m * 2 powi k)"
proof (cases "m = 0")
  case True
  then show ?thesis by (simp add: round_f64_def)
next
  case False
  let ?x = "of_int m * (2::real) powi k"
  have ax: "\<bar>?x\<bar> = of_int \<bar>m\<bar> * 2 powi k"
    by (simp add: abs_mult less_imp_le [OF pow2_pos])
  from False have nz: "?x \<noteq> 0" by simp
  then have pos: "0 < \<bar>?x\<bar>" by simp
  define e where "e = max (ilog2 \<bar>?x\<bar>) (- 1022)"
  have "of_int \<bar>m\<bar> < (2::real) ^ 53"
    using assms(1) by (metis of_int_less_iff of_int_numeral of_int_power)
  then have "\<bar>?x\<bar> < 2 ^ 53 * 2 powi k"
    unfolding ax by (intro mult_strict_right_mono pow2_pos)
  also have "\<dots> = 2 powi (53 + k)"
    by (subst power_int_add) simp_all
  finally have lt: "\<bar>?x\<bar> < 2 powi (53 + k)" .
  have "ilog2 \<bar>?x\<bar> < 53 + k"
  proof (rule ccontr)
    assume "\<not> ilog2 \<bar>?x\<bar> < 53 + k"
    then have "(2::real) powi (53 + k) \<le> 2 powi ilog2 \<bar>?x\<bar>"
      by (intro power_int_increasing) simp_all
    with ilog2_lower [OF pos] lt show False by linarith
  qed
  with assms(2) have j: "0 \<le> k - (e - 52)" by (simp add: e_def)
  define j where "j = nat (k - (e - 52))"
  have kj: "k = (e - 52) + int j" using j by (simp add: j_def)
  have "(2::real) powi k = 2 powi (e - 52) * 2 ^ j"
    by (subst kj, subst power_int_add) simp_all
  then have quot: "?x / 2 powi (e - 52) = of_int (m * 2 ^ j)"
    using pow2_pos [of "e - 52"] by (simp add: field_simps)
  have y: "of_int (round_half_even (?x / 2 powi (e - 52))) * 2 powi (e - 52) = ?x"
    unfolding quot round_half_even_of_int
    using \<open>(2::real) powi k = 2 powi (e - 52) * 2 ^ j\<close> by simp
  have "(2::real) powi (53 + k) \<le> 2 powi 1024"
    using assms(3) by (intro power_int_increasing) simp_all
  with lt have "\<not> 2 powi 1024 \<le> \<bar>?x\<bar>" by linarith
  with nz y show ?thesis
    by (simp add: round_f64_def Let_def e_def [symmetric])
qed

lemma round_f64_of_int:
  assumes "\<bar>m\<bar> < 2 ^ 53"
  shows "round_f64 (of_int m) = Fin (of_int m)"
  using round_f64_exact [OF assms, of 0] by simp

text \<open>Beyond the largest double the rounding overflows.\<close>

lemma round_f64_overflow:
  assumes "2 powi 1024 \<le> x"
  shows "round_f64 x = PInf"
proof -
  from assms pow2_pos [of 1024] have x: "0 < x" by linarith
  define e where "e = max (ilog2 \<bar>x\<bar>) (- 1022)"
  let ?q = "(2::real) powi (e - 52)"
  let ?m = "round_half_even (x / ?q)"
  have "1024 \<le> ilog2 x"
  proof (rule ccontr)
    assume "\<not> 1024 \<le> ilog2 x"
    then have "(2::real) powi (ilog2 x + 1) \<le> 2 powi 1024"
      by (intro power_int_increasing) simp_all
    with ilog2_upper [OF x] assms show False by linarith
  qed
  with x have e: "e = ilog2 x" by (simp add: e_def)
  from x \<open>1024 \<le> ilog2 x\<close> have m: "max (ilog2 \<bar>x\<bar>) (- 1022) = e" by (simp add: e)
  have "2 powi e \<le> x" unfolding e by (rule ilog2_lower [OF x])
  moreover have "(2::real) powi e = 2 ^ 52 * ?q"
  proof -
    have "(2::real) powi e = 2 powi (52 + (e - 52))" by simp
    also have "\<dots> = 2 powi 52 * ?q" by (subst power_int_add) simp_all
    finally show ?thesis by simp
  qed
  ultimately have "2 ^ 52 \<le> x / ?q"
    using pow2_pos [of "e - 52"] by (simp add: field_simps)
  with round_half_even_error [of "x / ?q"] have "2 ^ 52 - 1 / 2 \<le> (of_int ?m :: real)"
    by linarith
  then have "(2::real) ^ 52 - 1 < of_int ?m" by linarith
  then have "(of_int (2 ^ 52 - 1) :: real) < of_int ?m" by simp
  then have "2 ^ 52 - 1 < ?m" by (simp only: of_int_less_iff)
  then have "2 ^ 52 \<le> ?m" by linarith
  then have "(of_int (2 ^ 52) :: real) \<le> of_int ?m" by (simp only: of_int_le_iff)
  then have "(2::real) ^ 52 * ?q \<le> of_int ?m * ?q"
    using pow2_pos [of "e - 52"] by (intro mult_right_mono) simp_all
  with \<open>(2::real) powi e = 2 ^ 52 * ?q\<close> have "2 powi e \<le> of_int ?m * ?q" by simp
  moreover have "(2::real) powi 1024 \<le> 2 powi e"
    using \<open>1024 \<le> ilog2 x\<close> e by (intro power_int_increasing) simp_all
  ultimately have big: "2 powi 1024 \<le> of_int ?m * ?q" by linarith
  moreover from big pow2_pos [of 1024] have "0 < of_int ?m * ?q" by linarith
  ultimately have "2 powi 1024 \<le> \<bar>of_int ?m * ?q\<bar>" by simp
  with x show ?thesis
    unfolding round_f64_def Let_def m by simp
qed

lemma round_f64_numeral:
  "numeral n < (2::int) ^ 53 \<Longrightarrow> round_f64 (numeral n) = Fin (numeral n)"
  using round_f64_of_int [of "numeral n"] by simp

lemma round_f64_neg_numeral:
  "numeral n < (2::int) ^ 53 \<Longrightarrow> round_f64 (- numeral n) = Fin (- numeral n)"
  using round_f64_of_int [of "- numeral n"] by simp

lemma round_f64_0: "round_f64 0 = Fin 0"
  by (simp add: round_f64_def)

lemma round_f64_1: "round_f64 1 = Fin 1"
  using round_f64_of_int [of 1] by simp

section \<open>Facts about the engine over doubles\<close>

lemma coerce_f64_Missing: "coerce_f64 parse Missing = Fin 0"
  by (simp add: coerce_f64_def fillna_f64_def)

lemma coerce_f64_Num: "coerce_f64 parse (Num x) = Fin x"
  by (simp add: coerce_f64_def fillna_f64_def)

lemma coerce_f64_not_NaN: "coerce_f64 parse c \<noteq> NaN"
  by (simp add: coerce_f64_def fillna_f64_def)

lemma unreadable_f64_coerce: "unreadable_f64 parse c \<Longrightarrow> coerce_f64 parse c = Fin 0"
  by (cases c) (auto simp: coerce_f64_def fillna_f64_def)

lemma coerce_f64_repair: "coerce_f64 parse (repair_cell parse c) = coerce_f64 parse c"
  by (simp add: repair_cell_def unreadable_f64_coerce coerce_f64_Num)

lemma derive_coerce_join_f64:
  "derive_row_f64 cases (coerce_row_f64 parse (join_row u c)) =
     \<lparr>Component = Component u, Per_Case = coerce_f64 parse (Per_Case u), UOM = UOM u,
      On_Hand = coerce_f64 parse c,
      feas_row_f64.Required = fmul (coerce_f64 parse (Per_Case u)) cases,
      feas_row_f64.Remaining =
        fsub (coerce_f64 parse c) (fmul (coerce_f64 parse (Per_Case u)) cases)\<rparr>"
  by (simp add: derive_row_f64_def coerce_row_f64_def join_row_def Let_def)

lemma derived_rows_f64_With:
  "derived_rows_f64 parse comps (With_On_Hand st) cases =
     concat (map (\<lambda>u. case filter (\<lambda>s. Component s = Component u) st of
         [] \<Rightarrow> [derive_row_f64 cases (coerce_row_f64 parse (join_row u Missing))]
       | ms \<Rightarrow> map (\<lambda>s. derive_row_f64 cases (coerce_row_f64 parse (join_row u (stock_row.On_Hand s)))) ms)
       comps)"
  by (induction comps) (auto simp: derived_rows_f64_def split: list.splits)

lemma derived_rows_f64_Only:
  "derived_rows_f64 parse comps (Component_only ks) cases =
     concat (map (\<lambda>u. case filter (\<lambda>s. Component s = Component u) ks of
         [] \<Rightarrow> [derive_row_f64 cases (coerce_row_f64 parse (join_row u (Num 0)))]
       | ms \<Rightarrow> map (\<lambda>s. derive_row_f64 cases (coerce_row_f64 parse (join_row u (Num 0)))) ms)
       comps)"
  by (induction comps) (auto simp: derived_rows_f64_def split: list.splits)

text \<open>Where a derived row comes from, and that every usage row gives one.\<close>

lemma derived_row_f64_cases:
  assumes "r \<in> set (derived_rows_f64 parse comps onhand cases)"
  obtains u c where "u \<in> set comps" "r = derive_row_f64 cases (coerce_row_f64 parse (join_row u c))"
    "(case onhand of
        With_On_Hand st \<Rightarrow>
          (\<exists>s\<in>set st. Component s = Component u \<and> c = stock_row.On_Hand s) \<or>
          (Component u \<notin> Component ` set st \<and> c = Missing)
      | Component_only ks \<Rightarrow> c = Num 0)"
proof (cases onhand)
  case (With_On_Hand st)
  from assms obtain u where u: "u \<in> set comps"
    and r: "r \<in> set (case filter (\<lambda>s. Component s = Component u) st of
         [] \<Rightarrow> [derive_row_f64 cases (coerce_row_f64 parse (join_row u Missing))]
       | ms \<Rightarrow> map (\<lambda>s. derive_row_f64 cases (coerce_row_f64 parse (join_row u (stock_row.On_Hand s)))) ms)"
    unfolding With_On_Hand derived_rows_f64_With by auto
  show ?thesis
  proof (cases "filter (\<lambda>s. Component s = Component u) st")
    case Nil
    then have "Component u \<notin> Component ` set st"
      by (auto simp: filter_empty_conv)
    with r Nil u that [of u Missing] With_On_Hand show ?thesis by simp
  next
    case (Cons m ms)
    with r obtain s where "s \<in> set (filter (\<lambda>s. Component s = Component u) st)"
      "r = derive_row_f64 cases (coerce_row_f64 parse (join_row u (stock_row.On_Hand s)))"
      by auto
    with u that [of u "stock_row.On_Hand s"] With_On_Hand show ?thesis by auto
  qed
next
  case (Component_only ks)
  from assms obtain u where u: "u \<in> set comps"
    and r: "r \<in> set (case filter (\<lambda>s. Component s = Component u) ks of
         [] \<Rightarrow> [derive_row_f64 cases (coerce_row_f64 parse (join_row u (Num 0)))]
       | ms \<Rightarrow> map (\<lambda>s. derive_row_f64 cases (coerce_row_f64 parse (join_row u (Num 0)))) ms)"
    unfolding Component_only derived_rows_f64_Only by auto
  then have "r = derive_row_f64 cases (coerce_row_f64 parse (join_row u (Num 0)))"
    by (auto split: list.splits)
  with u that [of u "Num 0"] Component_only show ?thesis by simp
qed

lemma derived_row_f64_of_usage:
  assumes "u \<in> set comps"
  shows "\<exists>c. derive_row_f64 cases (coerce_row_f64 parse (join_row u c))
           \<in> set (derived_rows_f64 parse comps onhand cases)"
proof (cases onhand)
  case (With_On_Hand st)
  show ?thesis
  proof (cases "filter (\<lambda>s. Component s = Component u) st")
    case Nil
    with assms have "derive_row_f64 cases (coerce_row_f64 parse (join_row u Missing))
        \<in> set (derived_rows_f64 parse comps onhand cases)"
      unfolding With_On_Hand derived_rows_f64_With by (auto intro!: bexI [of _ u])
    then show ?thesis ..
  next
    case (Cons m ms)
    with assms have "derive_row_f64 cases (coerce_row_f64 parse (join_row u (stock_row.On_Hand m)))
        \<in> set (derived_rows_f64 parse comps onhand cases)"
      unfolding With_On_Hand derived_rows_f64_With by (auto intro!: bexI [of _ u])
    then show ?thesis ..
  qed
next
  case (Component_only ks)
  with assms have "derive_row_f64 cases (coerce_row_f64 parse (join_row u (Num 0)))
      \<in> set (derived_rows_f64 parse comps onhand cases)"
    unfolding Component_only derived_rows_f64_Only
    by (auto intro!: bexI [of _ u] split: list.splits)
  then show ?thesis ..
qed

text \<open>The order of the doubles that are numbers, and the least of a series.\<close>

lemma dle_refl: "x \<noteq> NaN \<Longrightarrow> dle x x"
  by (cases x) simp_all

lemma dle_total: "x \<noteq> NaN \<Longrightarrow> y \<noteq> NaN \<Longrightarrow> dle x y \<or> dle y x"
  by (cases x; cases y) auto

lemma dle_trans: "dle x y \<Longrightarrow> dle y z \<Longrightarrow> dle x z"
  by (cases x; cases y; cases z) auto

lemma dle_antisym: "dle x y \<Longrightarrow> dle y x \<Longrightarrow> x = y"
  by (cases x; cases y) auto

lemma least_quotient_unique: "least_quotient R x \<Longrightarrow> least_quotient R y \<Longrightarrow> x = y"
  by (auto simp: least_quotient_def intro: dle_antisym)

lemma series_min_f64_NaN: "series_min_f64 xs = NaN \<longleftrightarrow> set xs \<subseteq> {NaN}"
  by (induction xs) (auto simp: Let_def)

lemma series_min_f64_least:
  assumes "\<not> set xs \<subseteq> {NaN}"
  shows "least_quotient (set xs) (series_min_f64 xs)"
  using assms
proof (induction xs)
  case Nil
  then show ?case by simp
next
  case (Cons x xs)
  let ?m = "series_min_f64 xs"
  show ?case
  proof (cases "set xs \<subseteq> {NaN}")
    case True
    then have m: "?m = NaN" by (simp add: series_min_f64_NaN)
    from Cons.prems True have x: "x \<noteq> NaN" by auto
    with m True show ?thesis
      by (auto simp: least_quotient_def Let_def dle_refl)
  next
    case False
    then have IH: "least_quotient (set xs) ?m" by (rule Cons.IH)
    then have m: "?m \<noteq> NaN" by (simp add: least_quotient_def)
    show ?thesis
    proof (cases "x = NaN")
      case True
      with IH m show ?thesis
        by (auto simp: least_quotient_def Let_def)
    next
      case x: False
      show ?thesis
      proof (cases "dle x ?m")
        case True
        with IH x m show ?thesis
          by (auto simp: least_quotient_def Let_def dle_refl intro: dle_trans)
      next
        case False
        with dle_total [OF x m] have "dle ?m x" by simp
        with False IH x m show ?thesis
          by (auto simp: least_quotient_def Let_def)
      qed
    qed
  qed
qed

text \<open>Line 170, case by case on the quotients.\<close>

lemma quotients_set:
  "set (map (\<lambda>r. fdiv (On_Hand r) (Per_Case r)) (filter (\<lambda>r. gt0 (Per_Case r)) df)) =
   quotients (set df)"
  by (auto simp: quotients_def)

lemma max_sell_of_f64_none:
  assumes "quotients (set df) = {}"
  shows "max_sell_of_f64 df = Inr 0"
proof -
  let ?qs = "map (\<lambda>r. fdiv (On_Hand r) (Per_Case r)) (filter (\<lambda>r. gt0 (Per_Case r)) df)"
  have qs: "set ?qs = quotients (set df)" by (rule quotients_set)
  from assms have "set ?qs = {}" by (simp only: qs)
  then have "?qs = []" by (simp only: set_empty)
  then have "filter (\<lambda>r. gt0 (Per_Case r)) df = []" by simp
  then show ?thesis by (simp add: max_sell_of_f64_def)
qed

lemma max_sell_of_f64_least:
  assumes "least_quotient (quotients (set df)) x"
  shows "max_sell_of_f64 df = math_floor_f64 x"
proof -
  let ?qs = "map (\<lambda>r. fdiv (On_Hand r) (Per_Case r)) (filter (\<lambda>r. gt0 (Per_Case r)) df)"
  have qs: "set ?qs = quotients (set df)" by (rule quotients_set)
  from assms have "x \<in> quotients (set df)" "x \<noteq> NaN"
    by (simp_all add: least_quotient_def)
  then have x: "x \<in> set ?qs" "x \<noteq> NaN"
    by (simp_all only: qs not_False_eq_True)
  then have "\<not> set ?qs \<subseteq> {NaN}" by blast
  then have "least_quotient (set ?qs) (series_min_f64 ?qs)" by (rule series_min_f64_least)
  with assms have "series_min_f64 ?qs = x"
    by (simp only: qs least_quotient_unique)
  moreover from x(1) have "?qs \<noteq> []" by (cases ?qs) simp_all
  then have "filter (\<lambda>r. gt0 (Per_Case r)) df \<noteq> []" by simp
  ultimately show ?thesis by (simp add: max_sell_of_f64_def)
qed

lemma max_sell_of_f64_all_NaN:
  assumes "quotients (set df) \<noteq> {}" "quotients (set df) \<subseteq> {NaN}"
  shows "max_sell_of_f64 df = Inl ValueError_floor_NaN"
proof -
  let ?qs = "map (\<lambda>r. fdiv (On_Hand r) (Per_Case r)) (filter (\<lambda>r. gt0 (Per_Case r)) df)"
  have qs: "set ?qs = quotients (set df)" by (rule quotients_set)
  from assms(2) have "series_min_f64 ?qs = NaN"
    by (simp only: series_min_f64_NaN qs)
  moreover from assms(1) have "set ?qs \<noteq> {}" by (simp only: qs not_False_eq_True)
  then have "?qs \<noteq> []" by (cases ?qs) simp_all
  then have "filter (\<lambda>r. gt0 (Per_Case r)) df \<noteq> []" by simp
  ultimately show ?thesis by (simp add: max_sell_of_f64_def)
qed

lemma quotients_cases:
  "quotients (set df) = {} \<or> (\<exists>x. least_quotient (quotients (set df)) x) \<or>
   (quotients (set df) \<noteq> {} \<and> quotients (set df) \<subseteq> {NaN})"
proof -
  let ?qs = "map (\<lambda>r. fdiv (On_Hand r) (Per_Case r)) (filter (\<lambda>r. gt0 (Per_Case r)) df)"
  have qs: "set ?qs = quotients (set df)" by (rule quotients_set)
  show ?thesis
  proof (cases "set ?qs \<subseteq> {NaN}")
    case True
    then have "quotients (set df) \<subseteq> {NaN}" by (simp only: qs)
    then show ?thesis by blast
  next
    case False
    then have "least_quotient (set ?qs) (series_min_f64 ?qs)" by (rule series_min_f64_least)
    then have "least_quotient (quotients (set df)) (series_min_f64 ?qs)" by (simp only: qs)
    then show ?thesis by blast
  qed
qed

lemma compute_f64_Inr:
  assumes "max_sell_of_f64 (derived_rows_f64 parse comps onhand cases) = Inr m"
  shows "compute_f64 parse comps onhand cases =
     Inr (sort_key Component (derived_rows_f64 parse comps onhand cases), m,
          filter (\<lambda>r. lt0 (feas_row_f64.Remaining r)) (derived_rows_f64 parse comps onhand cases))"
  using assms by (simp add: compute_f64_def Let_def)

lemma compute_f64_Inl:
  assumes "max_sell_of_f64 (derived_rows_f64 parse comps onhand cases) = Inl e"
  shows "compute_f64 parse comps onhand cases = Inl e"
  using assms by (simp add: compute_f64_def Let_def)

section \<open>Properties of \<^verbatim>\<open>compute\<close> over doubles\<close>

text \<open>The example tables, evaluated.\<close>

lemma ex_parse_12: "decimal_parser_f64 ''12'' = Fin 12"
  by code_simp

lemma ex_parse_60: "decimal_parser_f64 ''60'' = Fin 60"
  by code_simp

lemma ex_parse_na: "decimal_parser_f64 ''n/a'' = NaN"
  by code_simp

lemma ex_parse_inf: "decimal_parser_f64 ''inf'' = PInf"
  by code_simp

lemma ex_rows_whole:
  "derived_rows_f64 decimal_parser_f64 ex_comps (With_On_Hand ex_onhand_whole) (Fin 5) =
    [\<lparr>Component = ''Cap'', Per_Case = Fin 12, UOM = ''ea'', On_Hand = Fin 60,
      feas_row_f64.Required = Fin 60, feas_row_f64.Remaining = Fin 0\<rparr>,
     \<lparr>Component = ''Bottle'', Per_Case = Fin 12, UOM = ''ea'', On_Hand = Fin 96,
      feas_row_f64.Required = Fin 60, feas_row_f64.Remaining = Fin 36\<rparr>,
     \<lparr>Component = ''Label'', Per_Case = Fin 0, UOM = [], On_Hand = Fin 0,
      feas_row_f64.Required = Fin 0, feas_row_f64.Remaining = Fin 0\<rparr>]"
  by (simp add: derived_rows_f64_def ex_comps_def ex_onhand_whole_def join_row_def
      coerce_row_f64_def derive_row_f64_def coerce_f64_def fillna_f64_def Let_def
      ex_parse_12 ex_parse_60 ex_parse_na round_f64_numeral round_f64_0)

lemma ex_quotients_whole:
  "quotients (set (derived_rows_f64 decimal_parser_f64 ex_comps (With_On_Hand ex_onhand_whole) (Fin 5))) =
     {Fin 5, Fin 8}"
  unfolding quotients_set [symmetric]
  by (simp add: ex_rows_whole round_f64_numeral)

lemma ex_compute_f64_whole:
  "compute_f64 decimal_parser_f64 ex_comps (With_On_Hand ex_onhand_whole) (Fin 5) = Inr
    ([\<lparr>Component = ''Bottle'', Per_Case = Fin 12, UOM = ''ea'', On_Hand = Fin 96,
       feas_row_f64.Required = Fin 60, feas_row_f64.Remaining = Fin 36\<rparr>,
      \<lparr>Component = ''Cap'', Per_Case = Fin 12, UOM = ''ea'', On_Hand = Fin 60,
       feas_row_f64.Required = Fin 60, feas_row_f64.Remaining = Fin 0\<rparr>,
      \<lparr>Component = ''Label'', Per_Case = Fin 0, UOM = [], On_Hand = Fin 0,
       feas_row_f64.Required = Fin 0, feas_row_f64.Remaining = Fin 0\<rparr>],
     5, [])"
  by (simp add: compute_f64_def max_sell_of_f64_def ex_rows_whole Let_def round_f64_numeral)

text \<open>
  One usage entry, \<open>1.0\<close> on hand and \<open>0.1\<close> per case: the quotient of the two doubles rounds
  to \<open>10.0\<close>, and ten cases it is, where the exact quotient of the same two numbers has the
  floor \<open>9\<close>.
\<close>

lemma ex_tenth_quotient: "round_f64 (1 / tenth) = Fin 10"
  unfolding tenth_def
  by (subst round_f64_normal [of 3]) (simp_all add: round_half_even_def Let_def)

lemma ex_tenth_exact_floor: "\<lfloor>1 / tenth\<rfloor> = 9"
  by (simp add: tenth_def)

lemma ex_tenth_pos: "0 < tenth"
  by (simp add: tenth_def)

lemma ex_compute_f64_tenth:
  "compute_f64 decimal_parser_f64 ex_comps_tenth (With_On_Hand ex_onhand_one) (Fin 0) = Inr
    ([\<lparr>Component = ''Bottle'', Per_Case = Fin tenth, UOM = ''ea'', On_Hand = Fin 1,
       feas_row_f64.Required = Fin 0, feas_row_f64.Remaining = Fin 1\<rparr>],
     10, [])"
  using ex_tenth_pos
  by (simp add: compute_f64_def max_sell_of_f64_def derived_rows_f64_def ex_comps_tenth_def
      ex_onhand_one_def join_row_def coerce_row_f64_def derive_row_f64_def coerce_f64_def
      fillna_f64_def Let_def round_f64_0 round_f64_1 ex_tenth_quotient)

text \<open>
  C1, as stated, fails: with \<open>2 ^ 1000\<close> on hand and \<open>2 powi (- 30)\<close> per case, two finite
  doubles, the quotient overflows to an infinity and \<^verbatim>\<open>compute\<close> raises
  \<^verbatim>\<open>OverflowError\<close>: it returns no \<^verbatim>\<open>max_sell\<close>.
\<close>

theorem compute_f64_overflow_counterexample:
  "compute_f64 decimal_parser_f64 ex_comps_tiny (With_On_Hand ex_onhand_huge) (Fin 0) =
     Inl OverflowError"
proof -
  have "round_f64 (2 ^ 1000 / (1 / 2 ^ 30)) = PInf"
    by (rule round_f64_overflow) simp
  then have "max_sell_of_f64
      (derived_rows_f64 decimal_parser_f64 ex_comps_tiny (With_On_Hand ex_onhand_huge) (Fin 0)) =
      Inl OverflowError"
    by (simp add: max_sell_of_f64_def derived_rows_f64_def ex_comps_tiny_def ex_onhand_huge_def
        join_row_def coerce_row_f64_def derive_row_f64_def coerce_f64_def fillna_f64_def Let_def)
  then show ?thesis by (rule compute_f64_Inl)
qed

text \<open>
  C1, amended. For every usage table, stock table and order size, with the quotients
  \<^verbatim>\<open>On_Hand / Per_Case\<close> taken in double arithmetic over exactly the rows of the coerced, joined
  table whose \<^verbatim>\<open>Per_Case\<close> is positive: when there is no such row \<^verbatim>\<open>compute\<close> returns
  \<^verbatim>\<open>max_sell\<close> \<open>0\<close>; when the least quotient (\<^verbatim>\<open>NaN\<close> set aside) is a finite number it
  returns its floor; when the least quotient is an infinity it raises \<^verbatim>\<open>OverflowError\<close>, and
  when every quotient is \<^verbatim>\<open>NaN\<close> it raises \<^verbatim>\<open>ValueError\<close>. One of these cases always holds,
  and the rows of a returned \<^verbatim>\<open>display\<close> have these very quotients.
\<close>

theorem compute_f64_floor_of_least_quotient:
  assumes "R = quotients (set (derived_rows_f64 parse comps onhand cases))"
  shows "(R = {} \<longrightarrow>
            (\<exists>display shortages.
               compute_f64 parse comps onhand cases = Inr (display, 0, shortages) \<and>
               quotients (set display) = R)) \<and>
         (\<forall>x. least_quotient R (Fin x) \<longrightarrow>
            (\<exists>display shortages.
               compute_f64 parse comps onhand cases = Inr (display, \<lfloor>x\<rfloor>, shortages) \<and>
               quotients (set display) = R)) \<and>
         (least_quotient R PInf \<or> least_quotient R NInf \<longrightarrow>
            compute_f64 parse comps onhand cases = Inl OverflowError) \<and>
         (R \<noteq> {} \<and> R \<subseteq> {NaN} \<longrightarrow>
            compute_f64 parse comps onhand cases = Inl ValueError_floor_NaN) \<and>
         (R = {} \<or> (\<exists>x. least_quotient R x) \<or> (R \<noteq> {} \<and> R \<subseteq> {NaN}))"
proof -
  let ?df = "derived_rows_f64 parse comps onhand cases"
  have same: "quotients (set (sort_key Component ?df)) = R"
    by (simp add: assms)
  have none: "\<exists>display shortages.
      compute_f64 parse comps onhand cases = Inr (display, 0, shortages) \<and>
      quotients (set display) = R" if "R = {}"
  proof -
    from that have "max_sell_of_f64 ?df = Inr 0"
      unfolding assms by (rule max_sell_of_f64_none)
    from compute_f64_Inr [OF this] same show ?thesis by blast
  qed
  have finite: "\<exists>display shortages.
      compute_f64 parse comps onhand cases = Inr (display, \<lfloor>x\<rfloor>, shortages) \<and>
      quotients (set display) = R" if "least_quotient R (Fin x)" for x
  proof -
    from that have "max_sell_of_f64 ?df = math_floor_f64 (Fin x)"
      unfolding assms by (rule max_sell_of_f64_least)
    then have "max_sell_of_f64 ?df = Inr \<lfloor>x\<rfloor>" by simp
    from compute_f64_Inr [OF this] same show ?thesis by blast
  qed
  have infinite: "compute_f64 parse comps onhand cases = Inl OverflowError"
    if "least_quotient R PInf \<or> least_quotient R NInf"
  proof -
    from that have "max_sell_of_f64 ?df = Inl OverflowError"
      unfolding assms by (auto dest: max_sell_of_f64_least)
    then show ?thesis by (rule compute_f64_Inl)
  qed
  have nan: "compute_f64 parse comps onhand cases = Inl ValueError_floor_NaN"
    if "R \<noteq> {} \<and> R \<subseteq> {NaN}"
  proof -
    from that have "max_sell_of_f64 ?df = Inl ValueError_floor_NaN"
      unfolding assms by (intro max_sell_of_f64_all_NaN) simp_all
    then show ?thesis by (rule compute_f64_Inl)
  qed
  have "R = {} \<or> (\<exists>x. least_quotient R x) \<or> (R \<noteq> {} \<and> R \<subseteq> {NaN})"
    unfolding assms by (rule quotients_cases)
  with none finite infinite nan show ?thesis by blast
qed

theorem compute_f64_floor_of_least_quotient_witness:
  "least_quotient
     (quotients (set (derived_rows_f64 decimal_parser_f64 ex_comps (With_On_Hand ex_onhand_whole) (Fin 5))))
     (Fin 5) \<and>
   (\<exists>display shortages.
      compute_f64 decimal_parser_f64 ex_comps (With_On_Hand ex_onhand_whole) (Fin 5) =
        Inr (display, 5, shortages) \<and>
      quotients (set display) = {Fin 5, Fin 8})"
proof -
  have l: "least_quotient
     (quotients (set (derived_rows_f64 decimal_parser_f64 ex_comps (With_On_Hand ex_onhand_whole) (Fin 5))))
     (Fin 5)"
    by (simp add: ex_quotients_whole least_quotient_def)
  from compute_f64_floor_of_least_quotient [OF refl,
      of decimal_parser_f64 ex_comps "With_On_Hand ex_onhand_whole" "Fin 5"] l
  obtain display shortages
    where "compute_f64 decimal_parser_f64 ex_comps (With_On_Hand ex_onhand_whole) (Fin 5) =
        Inr (display, \<lfloor>5::real\<rfloor>, shortages)"
      and "quotients (set display) =
        quotients (set (derived_rows_f64 decimal_parser_f64 ex_comps (With_On_Hand ex_onhand_whole) (Fin 5)))"
    by blast
  with l show ?thesis
    by (intro conjI exI [of _ display] exI [of _ shortages]) (simp_all add: ex_quotients_whole)
qed

lemma derived_rows_f64_repair:
  "derived_rows_f64 parse (repair_comps parse comps) (repair_stock parse onhand) cases =
   derived_rows_f64 parse comps onhand cases"
proof (cases onhand)
  case (With_On_Hand st)
  have "(case filter (\<lambda>s. Component s = Component u)
           (map (\<lambda>s. s\<lparr>stock_row.On_Hand := repair_cell parse (stock_row.On_Hand s)\<rparr>) st) of
         [] \<Rightarrow> [derive_row_f64 cases (coerce_row_f64 parse (join_row (u\<lparr>Per_Case := repair_cell parse (Per_Case u)\<rparr>) Missing))]
       | ms \<Rightarrow> map (\<lambda>s. derive_row_f64 cases (coerce_row_f64 parse (join_row (u\<lparr>Per_Case := repair_cell parse (Per_Case u)\<rparr>) (stock_row.On_Hand s)))) ms) =
        (case filter (\<lambda>s. Component s = Component u) st of
         [] \<Rightarrow> [derive_row_f64 cases (coerce_row_f64 parse (join_row u Missing))]
       | ms \<Rightarrow> map (\<lambda>s. derive_row_f64 cases (coerce_row_f64 parse (join_row u (stock_row.On_Hand s)))) ms)" for u
    by (cases "filter (\<lambda>s. Component s = Component u) st")
      (simp_all add: filter_map comp_def derive_coerce_join_f64 coerce_f64_repair)
  then show ?thesis
    by (simp add: With_On_Hand derived_rows_f64_With repair_comps_def comp_def)
next
  case (Component_only ks)
  show ?thesis
    by (simp add: Component_only derived_rows_f64_Only repair_comps_def comp_def
          derive_coerce_join_f64 coerce_f64_repair cong: list.case_cong)
qed

text \<open>When \<^verbatim>\<open>compute\<close> returns: no row limits, or the least quotient is finite.\<close>

lemma compute_f64_returns_iff:
  "(\<exists>res. compute_f64 parse comps onhand cases = Inr res) \<longleftrightarrow>
   (quotients (set (derived_rows_f64 parse comps onhand cases)) = {} \<or>
    (\<exists>x. least_quotient (quotients (set (derived_rows_f64 parse comps onhand cases))) (Fin x)))"
proof -
  let ?df = "derived_rows_f64 parse comps onhand cases"
  let ?R = "quotients (set ?df)"
  consider "?R = {}" | x where "least_quotient ?R x" | "?R \<noteq> {}" "?R \<subseteq> {NaN}"
    using quotients_cases [of ?df] by blast
  then show ?thesis
  proof cases
    case 1
    then have "max_sell_of_f64 ?df = Inr 0" by (rule max_sell_of_f64_none)
    from compute_f64_Inr [OF this] 1 show ?thesis by simp
  next
    case 2
    then have m: "max_sell_of_f64 ?df = math_floor_f64 x" by (rule max_sell_of_f64_least)
    from 2 have ne: "?R \<noteq> {}" "x \<noteq> NaN" by (auto simp: least_quotient_def)
    show ?thesis
    proof (cases x)
      case (Fin v)
      with m have "max_sell_of_f64 ?df = Inr \<lfloor>v\<rfloor>" by simp
      from compute_f64_Inr [OF this] 2 Fin show ?thesis by auto
    next
      case PInf
      with m have "max_sell_of_f64 ?df = Inl OverflowError" by simp
      then have "compute_f64 parse comps onhand cases = Inl OverflowError" by (rule compute_f64_Inl)
      moreover have "\<not> least_quotient ?R (Fin v)" for v
        using least_quotient_unique [OF 2] PInf by auto
      ultimately show ?thesis using ne by simp
    next
      case NInf
      with m have "max_sell_of_f64 ?df = Inl OverflowError" by simp
      then have "compute_f64 parse comps onhand cases = Inl OverflowError" by (rule compute_f64_Inl)
      moreover have "\<not> least_quotient ?R (Fin v)" for v
        using least_quotient_unique [OF 2] NInf by auto
      ultimately show ?thesis using ne by simp
    next
      case NaN
      with ne show ?thesis by simp
    qed
  next
    case 3
    then have "max_sell_of_f64 ?df = Inl ValueError_floor_NaN" by (rule max_sell_of_f64_all_NaN)
    then have "compute_f64 parse comps onhand cases = Inl ValueError_floor_NaN"
      by (rule compute_f64_Inl)
    moreover from 3 have "\<not> least_quotient ?R (Fin v)" for v
      by (auto simp: least_quotient_def)
    ultimately show ?thesis using 3 by simp
  qed
qed

lemma compute_f64_display:
  assumes "compute_f64 parse comps onhand cases = Inr (display, max_sell, shortages)"
  shows "set display = set (derived_rows_f64 parse comps onhand cases)"
    and "set shortages \<subseteq> set display"
  using assms by (auto simp: compute_f64_def Let_def split: sum.splits)

text \<open>
  C5, as stated, fails: the usage table has a \<^verbatim>\<open>Per_Case\<close> cell that is no number and the
  stock table an empty \<^verbatim>\<open>On_Hand\<close> cell, and \<^verbatim>\<open>compute\<close> raises \<^verbatim>\<open>OverflowError\<close>, the other
  quantities on hand being infinite.
\<close>

theorem compute_f64_unreadable_raises_counterexample:
  "unreadable_f64 decimal_parser_f64 (Per_Case (ex_comps ! 2)) \<and>
   unreadable_f64 decimal_parser_f64 (stock_row.On_Hand (ex_onhand_inf ! 2)) \<and>
   compute_f64 decimal_parser_f64 ex_comps (With_On_Hand ex_onhand_inf) (Fin 5) = Inl OverflowError"
proof -
  have "max_sell_of_f64
      (derived_rows_f64 decimal_parser_f64 ex_comps (With_On_Hand ex_onhand_inf) (Fin 5)) =
      Inl OverflowError"
    by (simp add: max_sell_of_f64_def derived_rows_f64_def ex_comps_def ex_onhand_inf_def
        join_row_def coerce_row_f64_def derive_row_f64_def coerce_f64_def fillna_f64_def Let_def
        ex_parse_12 ex_parse_na ex_parse_inf round_f64_numeral round_f64_0)
  then have "compute_f64 decimal_parser_f64 ex_comps (With_On_Hand ex_onhand_inf) (Fin 5) =
      Inl OverflowError"
    by (rule compute_f64_Inl)
  then show ?thesis
    by (simp add: ex_comps_def ex_onhand_inf_def ex_parse_na)
qed

text \<open>
  C5, amended. A cell that is missing, empty or a text that is no number is coerced to
  \<open>0.0\<close> before any arithmetic and never makes \<^verbatim>\<open>compute\<close> raise: \<^verbatim>\<open>compute\<close> does on the
  tables what it does on the tables in which each such \<^verbatim>\<open>Per_Case\<close> and \<^verbatim>\<open>On_Hand\<close> cell holds
  the number \<open>0.0\<close>, be it a result or a raise; it returns exactly when no row has a positive
  \<^verbatim>\<open>Per_Case\<close> or the least quotient \<^verbatim>\<open>On_Hand / Per_Case\<close> is finite; and what it returns
  lists every usage entry with its coerced \<^verbatim>\<open>Per_Case\<close>, \<open>0.0\<close> where the cell fails
  coercion, and with a coerced \<^verbatim>\<open>On_Hand\<close> of a stock row of its name, \<open>0.0\<close> where there is
  none.
\<close>

theorem compute_f64_silent_repair:
  "(unreadable_f64 parse c \<longrightarrow> coerce_f64 parse c = Fin 0) \<and>
   compute_f64 parse (repair_comps parse comps) (repair_stock parse onhand) cases =
     compute_f64 parse comps onhand cases \<and>
   ((\<exists>res. compute_f64 parse comps onhand cases = Inr res) \<longleftrightarrow>
      (quotients (set (derived_rows_f64 parse comps onhand cases)) = {} \<or>
       (\<exists>x. least_quotient (quotients (set (derived_rows_f64 parse comps onhand cases))) (Fin x)))) \<and>
   (\<forall>display max_sell shortages.
      compute_f64 parse comps onhand cases = Inr (display, max_sell, shortages) \<longrightarrow>
        (\<forall>u \<in> set comps. \<exists>r \<in> set display.
           Component r = Component u \<and> UOM r = UOM u \<and>
           Per_Case r = coerce_f64 parse (Per_Case u) \<and>
           (unreadable_f64 parse (Per_Case u) \<longrightarrow>
              Per_Case r = Fin 0 \<and> feas_row_f64.Required r = fmul (Fin 0) cases)) \<and>
        (\<forall>r \<in> set display. On_Hand r \<in> joined_On_Hand parse onhand (Component r)))"
proof (intro conjI allI impI)
  assume "unreadable_f64 parse c"
  then show "coerce_f64 parse c = Fin 0" by (rule unreadable_f64_coerce)
next
  show "compute_f64 parse (repair_comps parse comps) (repair_stock parse onhand) cases =
     compute_f64 parse comps onhand cases"
    by (simp only: compute_f64_def derived_rows_f64_repair)
next
  show "(\<exists>res. compute_f64 parse comps onhand cases = Inr res) \<longleftrightarrow>
      (quotients (set (derived_rows_f64 parse comps onhand cases)) = {} \<or>
       (\<exists>x. least_quotient (quotients (set (derived_rows_f64 parse comps onhand cases))) (Fin x)))"
    by (rule compute_f64_returns_iff)
next
  fix display max_sell shortages
  assume ret: "compute_f64 parse comps onhand cases = Inr (display, max_sell, shortages)"
  then have d: "set display = set (derived_rows_f64 parse comps onhand cases)"
    by (rule compute_f64_display)
  show "\<forall>u \<in> set comps. \<exists>r \<in> set display.
           Component r = Component u \<and> UOM r = UOM u \<and>
           Per_Case r = coerce_f64 parse (Per_Case u) \<and>
           (unreadable_f64 parse (Per_Case u) \<longrightarrow>
              Per_Case r = Fin 0 \<and> feas_row_f64.Required r = fmul (Fin 0) cases)"
  proof
    fix u
    assume "u \<in> set comps"
    then obtain c where "derive_row_f64 cases (coerce_row_f64 parse (join_row u c))
           \<in> set (derived_rows_f64 parse comps onhand cases)"
      using derived_row_f64_of_usage by blast
    then show "\<exists>r \<in> set display.
           Component r = Component u \<and> UOM r = UOM u \<and>
           Per_Case r = coerce_f64 parse (Per_Case u) \<and>
           (unreadable_f64 parse (Per_Case u) \<longrightarrow>
              Per_Case r = Fin 0 \<and> feas_row_f64.Required r = fmul (Fin 0) cases)"
      unfolding d
      by (rule rev_bexI) (simp add: derive_coerce_join_f64 unreadable_f64_coerce)
  qed
  show "\<forall>r \<in> set display. On_Hand r \<in> joined_On_Hand parse onhand (Component r)"
  proof
    fix r
    assume "r \<in> set display"
    then have "r \<in> set (derived_rows_f64 parse comps onhand cases)" by (simp only: d)
    then show "On_Hand r \<in> joined_On_Hand parse onhand (Component r)"
    proof (rule derived_row_f64_cases)
      fix u c
      assume r: "r = derive_row_f64 cases (coerce_row_f64 parse (join_row u c))"
        and c: "case onhand of
          With_On_Hand st \<Rightarrow>
            (\<exists>s\<in>set st. Component s = Component u \<and> c = stock_row.On_Hand s) \<or>
            (Component u \<notin> Component ` set st \<and> c = Missing)
        | Component_only ks \<Rightarrow> c = Num 0"
      from c have "coerce_f64 parse c \<in> joined_On_Hand parse onhand (Component u)"
        by (auto simp: joined_On_Hand_def coerce_f64_Missing coerce_f64_Num
            split: stock_table.splits intro: rev_image_eqI)
      with r show ?thesis by (simp add: derive_coerce_join_f64)
    qed
  qed
qed

theorem compute_f64_silent_repair_witness:
  "unreadable_f64 decimal_parser_f64 (Text ''n/a'') \<and>
   coerce_f64 decimal_parser_f64 (Text ''n/a'') = Fin 0 \<and>
   compute_f64 decimal_parser_f64 (repair_comps decimal_parser_f64 ex_comps)
     (repair_stock decimal_parser_f64 (With_On_Hand ex_onhand_whole)) (Fin 5) = Inr
    ([\<lparr>Component = ''Bottle'', Per_Case = Fin 12, UOM = ''ea'', On_Hand = Fin 96,
       feas_row_f64.Required = Fin 60, feas_row_f64.Remaining = Fin 36\<rparr>,
      \<lparr>Component = ''Cap'', Per_Case = Fin 12, UOM = ''ea'', On_Hand = Fin 60,
       feas_row_f64.Required = Fin 60, feas_row_f64.Remaining = Fin 0\<rparr>,
      \<lparr>Component = ''Label'', Per_Case = Fin 0, UOM = [], On_Hand = Fin 0,
       feas_row_f64.Required = Fin 0, feas_row_f64.Remaining = Fin 0\<rparr>],
     5, []) \<and>
   joined_On_Hand decimal_parser_f64 (With_On_Hand ex_onhand_whole) ''Label'' = {Fin 0}"
proof -
  have u: "unreadable_f64 decimal_parser_f64 (Text ''n/a'')"
    by (simp add: ex_parse_na)
  have j: "joined_On_Hand decimal_parser_f64 (With_On_Hand ex_onhand_whole) ''Label'' = {Fin 0}"
    by (auto simp: joined_On_Hand_def ex_onhand_whole_def coerce_f64_def fillna_f64_def)
  from compute_f64_silent_repair
    [of decimal_parser_f64 "Text ''n/a''" ex_comps "With_On_Hand ex_onhand_whole" "Fin 5"] u
  have "coerce_f64 decimal_parser_f64 (Text ''n/a'') = Fin 0"
    and "compute_f64 decimal_parser_f64 (repair_comps decimal_parser_f64 ex_comps)
       (repair_stock decimal_parser_f64 (With_On_Hand ex_onhand_whole)) (Fin 5) =
     compute_f64 decimal_parser_f64 ex_comps (With_On_Hand ex_onhand_whole) (Fin 5)"
    by blast+
  with u j show ?thesis
    by (simp only: ex_compute_f64_whole simp_thms)
qed

text \<open>Up to \<open>2 ^ 23\<close> in size a rounding stays within \<open>1e-9\<close>.\<close>

lemma round_f64_small_error:
  assumes "round_f64 x = Fin y" "\<bar>x\<bar> \<le> 2 ^ 23"
  shows "\<bar>y - x\<bar> \<le> 1 / 10 ^ 9"
proof -
  have "\<bar>y - x\<bar> \<le> 2 powi (- 53) * \<bar>x\<bar> + 2 powi (- 1075)"
    using assms(1) by (rule round_f64_error)
  also have "2 powi (- 53) * \<bar>x\<bar> \<le> 2 powi (- 53) * 2 ^ 23"
    using assms(2) by (intro mult_left_mono less_imp_le [OF pow2_pos])
  also have "(2::real) powi (- 1075) \<le> 2 powi (- 40)"
    by (intro power_int_increasing) simp_all
  also have "(2::real) powi (- 53) * 2 ^ 23 + 2 powi (- 40) \<le> 1 / 10 ^ 9"
    by (simp add: power_int_minus divide_simps)
  finally show ?thesis by simp
qed

text \<open>The double that \<^verbatim>\<open>0.1 * 12345678901.0\<close> is, and what goes with it.\<close>

lemma ex_tenth_times: "round_f64 (tenth * 12345678901) = Fin tenth_times"
  unfolding tenth_def tenth_times_def
  by (subst round_f64_normal [of 30]) (simp_all add: round_half_even_def Let_def)

lemma ex_one_minus: "round_f64 (1 - tenth_times) = Fin (1 - tenth_times)"
proof -
  have "1 - tenth_times = of_int (- 5178153035523687) * 2 powi (- 22)"
    by (simp add: tenth_times_def power_int_minus divide_simps)
  moreover have "round_f64 (of_int (- 5178153035523687) * 2 powi (- 22)) =
      Fin (of_int (- 5178153035523687) * 2 powi (- 22))"
    by (rule round_f64_exact) simp_all
  ultimately show ?thesis by simp
qed

lemma ex_one_minus_neg: "1 - tenth_times < 0"
  by (simp add: tenth_times_def)

text \<open>
  C6, as stated, fails: with \<^verbatim>\<open>Per_Case\<close> \<open>0.1\<close> and \<open>12345678901\<close> cases the \<^verbatim>\<open>Required\<close> that
  \<^verbatim>\<open>compute\<close> returns is further than \<open>1e-9\<close> from the product of \<^verbatim>\<open>Per_Case\<close> and the
  cases.
\<close>

theorem compute_f64_tolerance_counterexample:
  "compute_f64 decimal_parser_f64 ex_comps_tenth (With_On_Hand ex_onhand_one) (Fin 12345678901) = Inr
    ([\<lparr>Component = ''Bottle'', Per_Case = Fin tenth, UOM = ''ea'', On_Hand = Fin 1,
       feas_row_f64.Required = Fin tenth_times,
       feas_row_f64.Remaining = Fin (1 - tenth_times)\<rparr>],
     10,
     [\<lparr>Component = ''Bottle'', Per_Case = Fin tenth, UOM = ''ea'', On_Hand = Fin 1,
       feas_row_f64.Required = Fin tenth_times,
       feas_row_f64.Remaining = Fin (1 - tenth_times)\<rparr>]) \<and>
   1 / 10 ^ 9 < \<bar>tenth_times - tenth * 12345678901\<bar>"
proof -
  have "1 / 10 ^ 9 < \<bar>tenth_times - tenth * 12345678901\<bar>"
    by (simp add: tenth_def tenth_times_def)
  moreover have "compute_f64 decimal_parser_f64 ex_comps_tenth (With_On_Hand ex_onhand_one)
      (Fin 12345678901) = Inr
    ([\<lparr>Component = ''Bottle'', Per_Case = Fin tenth, UOM = ''ea'', On_Hand = Fin 1,
       feas_row_f64.Required = Fin tenth_times,
       feas_row_f64.Remaining = Fin (1 - tenth_times)\<rparr>],
     10,
     [\<lparr>Component = ''Bottle'', Per_Case = Fin tenth, UOM = ''ea'', On_Hand = Fin 1,
       feas_row_f64.Required = Fin tenth_times,
       feas_row_f64.Remaining = Fin (1 - tenth_times)\<rparr>])"
    using ex_tenth_pos ex_one_minus_neg
    by (simp add: compute_f64_def max_sell_of_f64_def derived_rows_f64_def ex_comps_tenth_def
        ex_onhand_one_def join_row_def coerce_row_f64_def derive_row_f64_def coerce_f64_def
        fillna_f64_def Let_def ex_tenth_quotient ex_tenth_times ex_one_minus)
  ultimately show ?thesis by simp
qed

text \<open>
  C6, amended. In every row of the frame \<^verbatim>\<open>compute\<close> derives, which are the rows it returns
  in \<^verbatim>\<open>display\<close> and \<^verbatim>\<open>shortages\<close> when it returns, \<^verbatim>\<open>Required\<close> is the double product of
  the coerced \<^verbatim>\<open>Per_Case\<close> and the cases and \<^verbatim>\<open>Remaining\<close> the double difference of the
  coerced \<^verbatim>\<open>On_Hand\<close> and \<^verbatim>\<open>Required\<close>. Where the numbers are finite, each is the exact
  product or difference of its two operands up to the relative error \<open>2 powi (- 53)\<close> (and the
  absolute error \<open>2 powi (- 1075)\<close> of the subnormal range), hence up to \<open>1e-9\<close> whenever the
  exact value is at most \<open>2 ^ 23\<close> in size.
\<close>

theorem compute_f64_required_remaining:
  "(\<forall>r \<in> set (derived_rows_f64 parse comps onhand cases).
      feas_row_f64.Required r = fmul (Per_Case r) cases \<and>
      feas_row_f64.Remaining r = fsub (On_Hand r) (feas_row_f64.Required r) \<and>
      (\<forall>p c q. Per_Case r = Fin p \<and> cases = Fin c \<and> feas_row_f64.Required r = Fin q \<longrightarrow>
         \<bar>q - p * c\<bar> \<le> 2 powi (- 53) * \<bar>p * c\<bar> + 2 powi (- 1075) \<and>
         (\<bar>p * c\<bar> \<le> 2 ^ 23 \<longrightarrow> \<bar>q - p * c\<bar> \<le> 1 / 10 ^ 9)) \<and>
      (\<forall>h q d. On_Hand r = Fin h \<and> feas_row_f64.Required r = Fin q \<and>
                feas_row_f64.Remaining r = Fin d \<longrightarrow>
         \<bar>d - (h - q)\<bar> \<le> 2 powi (- 53) * \<bar>h - q\<bar> + 2 powi (- 1075) \<and>
         (\<bar>h - q\<bar> \<le> 2 ^ 23 \<longrightarrow> \<bar>d - (h - q)\<bar> \<le> 1 / 10 ^ 9))) \<and>
   (\<forall>display max_sell shortages.
      compute_f64 parse comps onhand cases = Inr (display, max_sell, shortages) \<longrightarrow>
        set display = set (derived_rows_f64 parse comps onhand cases) \<and>
        set shortages \<subseteq> set display)"
proof (intro conjI ballI allI impI)
  fix r
  assume "r \<in> set (derived_rows_f64 parse comps onhand cases)"
  then obtain u c where r: "r = derive_row_f64 cases (coerce_row_f64 parse (join_row u c))"
    by (rule derived_row_f64_cases)
  show req: "feas_row_f64.Required r = fmul (Per_Case r) cases"
    by (simp add: r derive_coerce_join_f64)
  show rem: "feas_row_f64.Remaining r = fsub (On_Hand r) (feas_row_f64.Required r)"
    by (simp add: r derive_coerce_join_f64)
  {
    fix p c q
    assume a: "Per_Case r = Fin p \<and> cases = Fin c \<and> feas_row_f64.Required r = Fin q"
    with req have q: "round_f64 (p * c) = Fin q" by simp
    then show "\<bar>q - p * c\<bar> \<le> 2 powi (- 53) * \<bar>p * c\<bar> + 2 powi (- 1075)"
      by (rule round_f64_error)
    assume "\<bar>p * c\<bar> \<le> 2 ^ 23"
    with q show "\<bar>q - p * c\<bar> \<le> 1 / 10 ^ 9"
      by (rule round_f64_small_error)
  }
  {
    fix h q d
    assume a: "On_Hand r = Fin h \<and> feas_row_f64.Required r = Fin q \<and>
                feas_row_f64.Remaining r = Fin d"
    with rem have d: "round_f64 (h - q) = Fin d" by simp
    then show "\<bar>d - (h - q)\<bar> \<le> 2 powi (- 53) * \<bar>h - q\<bar> + 2 powi (- 1075)"
      by (rule round_f64_error)
    assume "\<bar>h - q\<bar> \<le> 2 ^ 23"
    with d show "\<bar>d - (h - q)\<bar> \<le> 1 / 10 ^ 9"
      by (rule round_f64_small_error)
  }
next
  fix display max_sell shortages
  assume ret: "compute_f64 parse comps onhand cases = Inr (display, max_sell, shortages)"
  then show "set display = set (derived_rows_f64 parse comps onhand cases)"
    by (rule compute_f64_display)
  from ret show "set shortages \<subseteq> set display"
    by (rule compute_f64_display)
qed

theorem compute_f64_required_remaining_witness:
  "compute_f64 decimal_parser_f64 ex_comps (With_On_Hand ex_onhand_whole) (Fin 5) = Inr
    ([\<lparr>Component = ''Bottle'', Per_Case = Fin 12, UOM = ''ea'', On_Hand = Fin 96,
       feas_row_f64.Required = Fin 60, feas_row_f64.Remaining = Fin 36\<rparr>,
      \<lparr>Component = ''Cap'', Per_Case = Fin 12, UOM = ''ea'', On_Hand = Fin 60,
       feas_row_f64.Required = Fin 60, feas_row_f64.Remaining = Fin 0\<rparr>,
      \<lparr>Component = ''Label'', Per_Case = Fin 0, UOM = [], On_Hand = Fin 0,
       feas_row_f64.Required = Fin 0, feas_row_f64.Remaining = Fin 0\<rparr>],
     5, []) \<and>
   fmul (Fin 12) (Fin 5) = Fin 60 \<and> fsub (Fin 96) (Fin 60) = Fin 36 \<and>
   \<bar>60 - 12 * 5\<bar> \<le> 1 / (10::real) ^ 9 \<and> \<bar>36 - (96 - 60)\<bar> \<le> 1 / (10::real) ^ 9"
proof -
  let ?b = "\<lparr>Component = ''Bottle'', Per_Case = Fin 12, UOM = ''ea'', On_Hand = Fin 96,
       feas_row_f64.Required = Fin 60, feas_row_f64.Remaining = Fin 36\<rparr>"
  have "?b \<in> set (derived_rows_f64 decimal_parser_f64 ex_comps (With_On_Hand ex_onhand_whole) (Fin 5))"
    by (simp add: ex_rows_whole)
  with compute_f64_required_remaining
    [of decimal_parser_f64 ex_comps "With_On_Hand ex_onhand_whole" "Fin 5"]
  have r: "feas_row_f64.Required ?b = fmul (Per_Case ?b) (Fin 5)"
    and m: "feas_row_f64.Remaining ?b = fsub (On_Hand ?b) (feas_row_f64.Required ?b)"
    and p: "\<forall>p c q. Per_Case ?b = Fin p \<and> Fin 5 = Fin c \<and> feas_row_f64.Required ?b = Fin q \<longrightarrow>
         \<bar>q - p * c\<bar> \<le> 2 powi (- 53) * \<bar>p * c\<bar> + 2 powi (- 1075) \<and>
         (\<bar>p * c\<bar> \<le> 2 ^ 23 \<longrightarrow> \<bar>q - p * c\<bar> \<le> 1 / 10 ^ 9)"
    and d: "\<forall>h q d. On_Hand ?b = Fin h \<and> feas_row_f64.Required ?b = Fin q \<and>
                feas_row_f64.Remaining ?b = Fin d \<longrightarrow>
         \<bar>d - (h - q)\<bar> \<le> 2 powi (- 53) * \<bar>h - q\<bar> + 2 powi (- 1075) \<and>
         (\<bar>h - q\<bar> \<le> 2 ^ 23 \<longrightarrow> \<bar>d - (h - q)\<bar> \<le> 1 / 10 ^ 9)"
    by blast+
  from r have "fmul (Fin 12) (Fin 5) = Fin 60" by simp
  moreover from m have "fsub (Fin 96) (Fin 60) = Fin 36" by simp
  moreover from p [rule_format, of 12 5 60] have "\<bar>60 - 12 * 5\<bar> \<le> 1 / (10::real) ^ 9" by simp
  moreover from d [rule_format, of 96 60 36] have "\<bar>36 - (96 - 60)\<bar> \<le> 1 / (10::real) ^ 9" by simp
  ultimately show ?thesis
    by (simp only: ex_compute_f64_whole simp_thms)
qed

text \<open>Rounding keeps the sign, and so does a quotient by a positive number.\<close>

lemma round_half_even_nonneg: "0 \<le> y \<Longrightarrow> 0 \<le> round_half_even y"
  by (auto simp: round_half_even_def Let_def)

lemma round_f64_nonneg:
  assumes "0 \<le> x"
  shows "\<not> lt0 (round_f64 x)"
proof (cases "x = 0")
  case True
  then show ?thesis by (simp add: round_f64_0)
next
  case False
  with assms have pos: "0 < x" by simp
  define q :: real where "q = 2 powi (max (ilog2 x) (- 1022) - 52)"
  have q: "0 < q" unfolding q_def by (rule pow2_pos)
  with pos have "0 \<le> x / q" by simp
  then have "0 \<le> round_half_even (x / q)" by (rule round_half_even_nonneg)
  with q have "0 \<le> of_int (round_half_even (x / q)) * q" by simp
  then have "\<not> of_int (round_half_even (x / q)) * q < 0" by simp
  with pos False show ?thesis
    unfolding q_def by (simp add: round_f64_def Let_def)
qed

lemma fdiv_nonneg: "\<not> lt0 a \<Longrightarrow> gt0 b \<Longrightarrow> \<not> lt0 (fdiv a b)"
  by (cases a; cases b) (auto simp: round_f64_nonneg)

text \<open>What \<^verbatim>\<open>max_sell\<close> is when \<^verbatim>\<open>compute\<close> returns.\<close>

lemma compute_f64_max_sell:
  assumes "compute_f64 parse comps onhand cases = Inr (display, max_sell, shortages)"
  shows "(quotients (set display) = {} \<and> max_sell = 0) \<or>
         (\<exists>x. least_quotient (quotients (set display)) (Fin x) \<and> max_sell = \<lfloor>x\<rfloor>)"
proof -
  let ?df = "derived_rows_f64 parse comps onhand cases"
  let ?R = "quotients (set ?df)"
  from assms have d: "set display = set ?df" by (rule compute_f64_display)
  from assms have m: "max_sell_of_f64 ?df = Inr max_sell"
    by (auto simp: compute_f64_def Let_def split: sum.splits)
  consider "?R = {}" | x where "least_quotient ?R x" | "?R \<noteq> {}" "?R \<subseteq> {NaN}"
    using quotients_cases [of ?df] by blast
  then show ?thesis
  proof cases
    case 1
    then have "max_sell_of_f64 ?df = Inr 0" by (rule max_sell_of_f64_none)
    with m 1 d show ?thesis by simp
  next
    case 2
    then have "max_sell_of_f64 ?df = math_floor_f64 x" by (rule max_sell_of_f64_least)
    with m have "math_floor_f64 x = Inr max_sell" by simp
    then obtain v where "x = Fin v" "max_sell = \<lfloor>v\<rfloor>" by (cases x) auto
    with 2 d show ?thesis by auto
  next
    case 3
    then have "max_sell_of_f64 ?df = Inl ValueError_floor_NaN" by (rule max_sell_of_f64_all_NaN)
    with m show ?thesis by simp
  qed
qed

text \<open>A row that limits has its quantity from a constraining cell, or the quantity \<open>0.0\<close>.\<close>

lemma constraining_On_Hand:
  assumes "\<forall>c \<in> set (constraining_cells parse comps onhand). \<not> lt0 (coerce_f64 parse c)"
    and "r \<in> set (derived_rows_f64 parse comps onhand cases)" "gt0 (Per_Case r)"
  shows "\<not> lt0 (On_Hand r)"
  using assms(2)
proof (rule derived_row_f64_cases)
  fix u c
  assume u: "u \<in> set comps"
    and r: "r = derive_row_f64 cases (coerce_row_f64 parse (join_row u c))"
    and c: "case onhand of
        With_On_Hand st \<Rightarrow>
          (\<exists>s\<in>set st. Component s = Component u \<and> c = stock_row.On_Hand s) \<or>
          (Component u \<notin> Component ` set st \<and> c = Missing)
      | Component_only ks \<Rightarrow> c = Num 0"
  from r assms(3) have p: "gt0 (coerce_f64 parse (Per_Case u))"
    by (simp add: derive_coerce_join_f64)
  have "\<not> lt0 (coerce_f64 parse c)"
  proof (cases onhand)
    case (With_On_Hand st)
    with c consider s where "s \<in> set st" "Component s = Component u" "c = stock_row.On_Hand s"
      | "c = Missing" by auto
    then show ?thesis
    proof cases
      case 1
      with u p have "c \<in> set (constraining_cells parse comps (With_On_Hand st))" by force
      with assms(1) With_On_Hand show ?thesis by blast
    next
      case 2
      then show ?thesis by (simp add: coerce_f64_Missing)
    qed
  next
    case (Component_only ks)
    with c show ?thesis by (simp add: coerce_f64_Num)
  qed
  with r show ?thesis by (simp add: derive_coerce_join_f64)
qed

lemma constraining_quotients:
  assumes "\<forall>c \<in> set (constraining_cells parse comps onhand). \<not> lt0 (coerce_f64 parse c)"
    and "q \<in> quotients (set (derived_rows_f64 parse comps onhand cases))"
  shows "\<not> lt0 q"
proof -
  from assms(2) obtain r where r: "r \<in> set (derived_rows_f64 parse comps onhand cases)"
    "gt0 (Per_Case r)" "q = fdiv (On_Hand r) (Per_Case r)"
    by (auto simp: quotients_def)
  from assms(1) r(1,2) have "\<not> lt0 (On_Hand r)" by (rule constraining_On_Hand)
  with r(2,3) show ?thesis by (simp add: fdiv_nonneg)
qed

lemma ex_compute_f64_unused:
  "compute_f64 decimal_parser_f64 ex_comps (With_On_Hand ex_onhand_unused) (Fin 5) = Inr
    ([\<lparr>Component = ''Bottle'', Per_Case = Fin 12, UOM = ''ea'', On_Hand = Fin 96,
       feas_row_f64.Required = Fin 60, feas_row_f64.Remaining = Fin 36\<rparr>,
      \<lparr>Component = ''Cap'', Per_Case = Fin 12, UOM = ''ea'', On_Hand = Fin 60,
       feas_row_f64.Required = Fin 60, feas_row_f64.Remaining = Fin 0\<rparr>,
      \<lparr>Component = ''Label'', Per_Case = Fin 0, UOM = [], On_Hand = Fin (- 1),
       feas_row_f64.Required = Fin 0, feas_row_f64.Remaining = Fin (- 1)\<rparr>],
     5,
     [\<lparr>Component = ''Label'', Per_Case = Fin 0, UOM = [], On_Hand = Fin (- 1),
       feas_row_f64.Required = Fin 0, feas_row_f64.Remaining = Fin (- 1)\<rparr>])"
proof -
  have m1: "round_f64 (- 1) = Fin (- 1)"
    using round_f64_of_int [of "- 1"] by simp
  show ?thesis
    by (simp add: compute_f64_def max_sell_of_f64_def derived_rows_f64_def ex_comps_def
        ex_onhand_unused_def join_row_def coerce_row_f64_def derive_row_f64_def coerce_f64_def
        fillna_f64_def Let_def ex_parse_12 ex_parse_na round_f64_numeral round_f64_0 m1)
qed

lemma ex_constraining_unused:
  "constraining_cells decimal_parser_f64 ex_comps (With_On_Hand ex_onhand_unused) = [Num 96, Num 60]"
  by (simp add: ex_comps_def ex_onhand_unused_def coerce_f64_def fillna_f64_def
      ex_parse_12 ex_parse_na)

text \<open>The doubles of \<^verbatim>\<open>-30.0 / 12.0\<close> and of \<^verbatim>\<open>50.0 / 12.0\<close>.\<close>

lemma ex_quotient_negative: "round_f64 (- (5 / 2)) = Fin (- (5 / 2))"
proof -
  have "round_f64 (of_int (- 5) * 2 powi (- 1)) = Fin (of_int (- 5) * 2 powi (- 1))"
    by (rule round_f64_exact) simp_all
  then show ?thesis by (simp add: power_int_minus)
qed

lemma ex_quotient_50: "round_f64 (25 / 6) = Fin (4691249611844267 / 1125899906842624)"
  by (subst round_f64_normal [of 2]) (simp_all add: round_half_even_def Let_def)

text \<open>
  C3, as stated, fails: with \<open>- 30\<close> bottles on hand and \<open>12\<close> per case, \<^verbatim>\<open>compute\<close> returns
  the \<^verbatim>\<open>max_sell\<close> \<open>- 3\<close>, in exact arithmetic and over doubles alike.
\<close>

theorem compute_max_sell_negative_counterexample:
  "compute decimal_parser ex_comps (With_On_Hand ex_onhand_negative) 0 = Inr
    ([\<lparr>Component = ''Bottle'', Per_Case = 12, UOM = ''ea'', On_Hand = - 30, Required = 0, Remaining = - 30\<rparr>,
      \<lparr>Component = ''Cap'', Per_Case = 12, UOM = ''ea'', On_Hand = 50, Required = 0, Remaining = 50\<rparr>,
      \<lparr>Component = ''Label'', Per_Case = 0, UOM = [], On_Hand = 0, Required = 0, Remaining = 0\<rparr>],
     - 3,
     [\<lparr>Component = ''Bottle'', Per_Case = 12, UOM = ''ea'', On_Hand = - 30, Required = 0, Remaining = - 30\<rparr>]) \<and>
   (- 3 :: int) < 0 \<and>
   compute_f64 decimal_parser_f64 ex_comps (With_On_Hand ex_onhand_negative) (Fin 0) = Inr
    ([\<lparr>Component = ''Bottle'', Per_Case = Fin 12, UOM = ''ea'', On_Hand = Fin (- 30),
       feas_row_f64.Required = Fin 0, feas_row_f64.Remaining = Fin (- 30)\<rparr>,
      \<lparr>Component = ''Cap'', Per_Case = Fin 12, UOM = ''ea'', On_Hand = Fin 50,
       feas_row_f64.Required = Fin 0, feas_row_f64.Remaining = Fin 50\<rparr>,
      \<lparr>Component = ''Label'', Per_Case = Fin 0, UOM = [], On_Hand = Fin 0,
       feas_row_f64.Required = Fin 0, feas_row_f64.Remaining = Fin 0\<rparr>],
     - 3,
     [\<lparr>Component = ''Bottle'', Per_Case = Fin 12, UOM = ''ea'', On_Hand = Fin (- 30),
       feas_row_f64.Required = Fin 0, feas_row_f64.Remaining = Fin (- 30)\<rparr>])"
proof -
  have "compute decimal_parser ex_comps (With_On_Hand ex_onhand_negative) 0 = Inr
    ([\<lparr>Component = ''Bottle'', Per_Case = 12, UOM = ''ea'', On_Hand = - 30, Required = 0, Remaining = - 30\<rparr>,
      \<lparr>Component = ''Cap'', Per_Case = 12, UOM = ''ea'', On_Hand = 50, Required = 0, Remaining = 50\<rparr>,
      \<lparr>Component = ''Label'', Per_Case = 0, UOM = [], On_Hand = 0, Required = 0, Remaining = 0\<rparr>],
     - 3,
     [\<lparr>Component = ''Bottle'', Per_Case = 12, UOM = ''ea'', On_Hand = - 30, Required = 0, Remaining = - 30\<rparr>]) \<and>
   (- 3 :: int) < 0"
    by code_simp
  moreover have "compute_f64 decimal_parser_f64 ex_comps (With_On_Hand ex_onhand_negative) (Fin 0) = Inr
    ([\<lparr>Component = ''Bottle'', Per_Case = Fin 12, UOM = ''ea'', On_Hand = Fin (- 30),
       feas_row_f64.Required = Fin 0, feas_row_f64.Remaining = Fin (- 30)\<rparr>,
      \<lparr>Component = ''Cap'', Per_Case = Fin 12, UOM = ''ea'', On_Hand = Fin 50,
       feas_row_f64.Required = Fin 0, feas_row_f64.Remaining = Fin 50\<rparr>,
      \<lparr>Component = ''Label'', Per_Case = Fin 0, UOM = [], On_Hand = Fin 0,
       feas_row_f64.Required = Fin 0, feas_row_f64.Remaining = Fin 0\<rparr>],
     - 3,
     [\<lparr>Component = ''Bottle'', Per_Case = Fin 12, UOM = ''ea'', On_Hand = Fin (- 30),
       feas_row_f64.Required = Fin 0, feas_row_f64.Remaining = Fin (- 30)\<rparr>])"
    by (simp add: compute_f64_def max_sell_of_f64_def derived_rows_f64_def ex_comps_def
        ex_onhand_negative_def join_row_def coerce_row_f64_def derive_row_f64_def coerce_f64_def
        fillna_f64_def Let_def ex_parse_12 ex_parse_na round_f64_numeral round_f64_neg_numeral
        round_f64_0 ex_quotient_negative ex_quotient_50)
  ultimately show ?thesis by simp
qed

text \<open>
  C3, amended. Whenever \<^verbatim>\<open>compute\<close> returns, its \<^verbatim>\<open>max_sell\<close> is a non-negative integer
  exactly when no row with \<^verbatim>\<open>Per_Case > 0\<close> has a negative quotient \<^verbatim>\<open>On_Hand / Per_Case\<close>; it
  is one for every input in which no \<^verbatim>\<open>On_Hand\<close> cell of a stock row joined to a usage entry
  with \<^verbatim>\<open>Per_Case > 0\<close> coerces to a negative number, whatever the other stock rows hold.
  \<^verbatim>\<open>compute\<close> returns when no row has \<^verbatim>\<open>Per_Case > 0\<close> or the least quotient is finite, and
  raises otherwise.
\<close>

theorem compute_max_sell_nonneg:
  "(\<forall>display max_sell shortages.
      compute_f64 parse comps onhand cases = Inr (display, max_sell, shortages) \<longrightarrow>
        (0 \<le> max_sell \<longleftrightarrow> (\<forall>q \<in> quotients (set display). \<not> lt0 q)) \<and>
        ((\<forall>c \<in> set (constraining_cells parse comps onhand). \<not> lt0 (coerce_f64 parse c)) \<longrightarrow>
           0 \<le> max_sell)) \<and>
   ((\<exists>result. compute_f64 parse comps onhand cases = Inr result) \<longleftrightarrow>
      quotients (set (derived_rows_f64 parse comps onhand cases)) = {} \<or>
      (\<exists>x. least_quotient (quotients (set (derived_rows_f64 parse comps onhand cases))) (Fin x)))"
proof (intro conjI allI impI)
  fix display max_sell shortages
  assume ret: "compute_f64 parse comps onhand cases = Inr (display, max_sell, shortages)"
  then have d: "set display = set (derived_rows_f64 parse comps onhand cases)"
    by (rule compute_f64_display)
  let ?R = "quotients (set display)"
  show iff: "0 \<le> max_sell \<longleftrightarrow> (\<forall>q \<in> ?R. \<not> lt0 q)"
    using compute_f64_max_sell [OF ret]
  proof (elim disjE conjE exE)
    assume "?R = {}" "max_sell = 0"
    then show ?thesis by simp
  next
    fix x
    assume least: "least_quotient ?R (Fin x)" and m: "max_sell = \<lfloor>x\<rfloor>"
    have "0 \<le> x \<longleftrightarrow> (\<forall>q \<in> ?R. \<not> lt0 q)"
    proof
      assume x: "0 \<le> x"
      show "\<forall>q \<in> ?R. \<not> lt0 q"
      proof
        fix q
        assume "q \<in> ?R"
        with least have "q = NaN \<or> dle (Fin x) q" by (auto simp: least_quotient_def)
        with x show "\<not> lt0 q" by (cases q) auto
      qed
    next
      assume "\<forall>q \<in> ?R. \<not> lt0 q"
      moreover from least have "Fin x \<in> ?R" by (simp add: least_quotient_def)
      ultimately have "\<not> lt0 (Fin x)" by blast
      then show "0 \<le> x" by simp
    qed
    with m show ?thesis by simp
  qed
  assume "\<forall>c \<in> set (constraining_cells parse comps onhand). \<not> lt0 (coerce_f64 parse c)"
  then have "\<forall>q \<in> ?R. \<not> lt0 q"
    unfolding d by (intro ballI) (rule constraining_quotients)
  with iff show "0 \<le> max_sell" by simp
next
  show "(\<exists>result. compute_f64 parse comps onhand cases = Inr result) \<longleftrightarrow>
      quotients (set (derived_rows_f64 parse comps onhand cases)) = {} \<or>
      (\<exists>x. least_quotient (quotients (set (derived_rows_f64 parse comps onhand cases))) (Fin x))"
    by (rule compute_f64_returns_iff)
qed

theorem compute_max_sell_nonneg_witness:
  "list_all (\<lambda>c. \<not> lt0 (coerce_f64 decimal_parser_f64 c))
     (constraining_cells decimal_parser_f64 ex_comps (With_On_Hand ex_onhand_unused)) \<and>
   list_ex (\<lambda>s. lt0 (coerce_f64 decimal_parser_f64 (stock_row.On_Hand s))) ex_onhand_unused \<and>
   (\<exists>display max_sell shortages.
     compute_f64 decimal_parser_f64 ex_comps (With_On_Hand ex_onhand_unused) (Fin 5) =
       Inr (display, max_sell, shortages) \<and>
     0 \<le> max_sell \<and> max_sell = 5 \<and> list_all (\<lambda>q. \<not> lt0 q) [Fin 8, Fin 5])"
proof -
  let ?display = "[\<lparr>Component = ''Bottle'', Per_Case = Fin 12, UOM = ''ea'', On_Hand = Fin 96,
       feas_row_f64.Required = Fin 60, feas_row_f64.Remaining = Fin 36\<rparr>,
      \<lparr>Component = ''Cap'', Per_Case = Fin 12, UOM = ''ea'', On_Hand = Fin 60,
       feas_row_f64.Required = Fin 60, feas_row_f64.Remaining = Fin 0\<rparr>,
      \<lparr>Component = ''Label'', Per_Case = Fin 0, UOM = [], On_Hand = Fin (- 1),
       feas_row_f64.Required = Fin 0, feas_row_f64.Remaining = Fin (- 1)\<rparr>]"
  let ?shortages = "[\<lparr>Component = ''Label'', Per_Case = Fin 0, UOM = [], On_Hand = Fin (- 1),
       feas_row_f64.Required = Fin 0, feas_row_f64.Remaining = Fin (- 1)\<rparr>]"
  have h: "\<forall>c \<in> set (constraining_cells decimal_parser_f64 ex_comps (With_On_Hand ex_onhand_unused)).
      \<not> lt0 (coerce_f64 decimal_parser_f64 c)"
    unfolding ex_constraining_unused by (simp add: coerce_f64_Num)
  have c: "compute_f64 decimal_parser_f64 ex_comps (With_On_Hand ex_onhand_unused) (Fin 5) =
      Inr (?display, 5, ?shortages)"
    by (rule ex_compute_f64_unused)
  from compute_max_sell_nonneg
    [of decimal_parser_f64 ex_comps "With_On_Hand ex_onhand_unused" "Fin 5"] c h
  have n: "(0::int) \<le> 5" by blast
  have neg: "list_ex (\<lambda>s. lt0 (coerce_f64 decimal_parser_f64 (stock_row.On_Hand s))) ex_onhand_unused"
    by (simp add: ex_onhand_unused_def coerce_f64_Num)
  from h have h': "list_all (\<lambda>c. \<not> lt0 (coerce_f64 decimal_parser_f64 c))
     (constraining_cells decimal_parser_f64 ex_comps (With_On_Hand ex_onhand_unused))"
    by (simp add: list_all_iff)
  from c n h' neg show ?thesis
    by (intro conjI exI [of _ ?display] exI [of _ 5] exI [of _ ?shortages]) simp_all
qed

section \<open>Properties of loading and writing back\<close>

lemma read_ws_df_columns: "read_ws_df values = Inr df \<Longrightarrow> columns df = sheet_columns values"
  by (auto simp: read_ws_df_def sheet_columns_def split: list.splits if_splits)

lemma numeric_col_columns: "numeric_col parse c df = Inr df' \<Longrightarrow> columns df' = columns df"
  by (auto simp: numeric_col_def set_col_def split: if_splits)

lemma numeric_col_unique:
  "count_list (columns df) c \<le> 1 \<Longrightarrow> \<exists>df'. numeric_col parse c df = Inr df'"
  by (simp add: numeric_col_def not_less [symmetric])

lemma fold_max_const:
  "list_all (\<lambda>r. length r = n) rs \<Longrightarrow> rs \<noteq> [] \<Longrightarrow> fold max (map length rs) m = max n m"
proof (induction rs arbitrary: m)
  case Nil
  then show ?case by simp
next
  case (Cons r rs)
  show ?case
  proof (cases "rs = []")
    case True
    with Cons.prems show ?thesis by (simp add: max.commute)
  next
    case False
    with Cons have "fold max (map length rs) (max (length r) m) = max n (max (length r) m)"
      by simp
    with Cons.prems show ?thesis by (simp add: max.commute)
  qed
qed

lemma rectangular_reads:
  assumes "rectangular values"
  shows "\<exists>df. read_ws_df values = Inr df"
proof (cases "values")
  case Nil
  then show ?thesis by (simp add: read_ws_df_def)
next
  case (Cons headers rs)
  with assms have all: "list_all (\<lambda>r. length r = length headers) rs"
    by (simp add: rectangular_def sheet_columns_def)
  have "width rs = length headers" if "rs \<noteq> []"
    using fold_max_const [OF all that, of 0] by (simp add: width_def)
  with Cons show ?thesis
    by (auto simp: read_ws_df_def)
qed

text \<open>Without one of the two headers every path through \<^verbatim>\<open>load_data\<close> ends in a raise.\<close>

lemma load_data_raises:
  assumes "''Component'' \<notin> set (sheet_columns fvals) \<or> ''Per_Case'' \<notin> set (sheet_columns fvals)"
  shows "\<exists>e. load_data parse fvals ivals = Inl e"
proof (cases "read_ws_df fvals")
  case (Inl e)
  then show ?thesis by (simp add: load_data_def)
next
  case f: (Inr formula)
  show ?thesis
  proof (cases "read_ws_df ivals")
    case (Inl e)
    with f show ?thesis by (simp add: load_data_def)
  next
    case i: (Inr inv_df)
    show ?thesis
    proof (cases "numeric_col parse ''Per_Case'' formula")
      case (Inl e)
      with f i show ?thesis by (simp add: load_data_def)
    next
      case f': (Inr formula')
      then have "columns formula' = sheet_columns fvals"
        using f by (simp add: numeric_col_columns read_ws_df_columns)
      with assms f i f' show ?thesis
        by (auto simp: load_data_def split: sum.splits)
    qed
  qed
qed

lemma overlay_Nil: "overlay vs [] = vs"
  by (induction vs) auto

text \<open>
  C8. For every \<^verbatim>\<open>FORMULA\<close> sheet whose header row lacks \<^verbatim>\<open>Component\<close> or \<^verbatim>\<open>Per_Case\<close>,
  \<^verbatim>\<open>load_data\<close> raises and returns nothing, and the script stops with that error before
  \<^verbatim>\<open>compute\<close> is called. On rectangular sheets, as the spreadsheet client returns them, in which
  the headers \<^verbatim>\<open>Per_Case\<close> and \<^verbatim>\<open>On_Hand\<close> are not repeated, the error is the \<^verbatim>\<open>ValueError\<close>
  of line 143 that names the two required headers and the headers found.
\<close>

theorem load_data_missing_column:
  assumes "''Component'' \<notin> set (sheet_columns fvals) \<or> ''Per_Case'' \<notin> set (sheet_columns fvals)"
  shows "(\<exists>e. load_data parse fvals ivals = Inl e \<and>
              main_script parse fvals ivals data_editor cases = Inl e) \<and>
         (rectangular fvals \<and> rectangular ivals \<and>
          count_list (sheet_columns fvals) ''Per_Case'' \<le> 1 \<and>
          count_list (sheet_columns ivals) ''On_Hand'' \<le> 1 \<longrightarrow>
          load_data parse fvals ivals =
            Inl (ValueError_headers [''Component'', ''Per_Case''] (sheet_columns fvals)))"
proof
  from load_data_raises [OF assms] obtain e where "load_data parse fvals ivals = Inl e" ..
  then show "\<exists>e. load_data parse fvals ivals = Inl e \<and>
              main_script parse fvals ivals data_editor cases = Inl e"
    by (simp add: main_script_def)
next
  show "rectangular fvals \<and> rectangular ivals \<and>
          count_list (sheet_columns fvals) ''Per_Case'' \<le> 1 \<and>
          count_list (sheet_columns ivals) ''On_Hand'' \<le> 1 \<longrightarrow>
          load_data parse fvals ivals =
            Inl (ValueError_headers [''Component'', ''Per_Case''] (sheet_columns fvals))"
  proof
    assume a: "rectangular fvals \<and> rectangular ivals \<and>
          count_list (sheet_columns fvals) ''Per_Case'' \<le> 1 \<and>
          count_list (sheet_columns ivals) ''On_Hand'' \<le> 1"
    then obtain formula inv_df where f: "read_ws_df fvals = Inr formula"
      and i: "read_ws_df ivals = Inr inv_df"
      using rectangular_reads by blast
    then have cf: "columns formula = sheet_columns fvals" and ci: "columns inv_df = sheet_columns ivals"
      by (simp_all add: read_ws_df_columns)
    from a cf obtain formula' where f': "numeric_col parse ''Per_Case'' formula = Inr formula'"
      using numeric_col_unique [of formula "''Per_Case''" parse] by auto
    from a ci obtain inv_df' where i': "numeric_col parse ''On_Hand'' inv_df = Inr inv_df'"
      using numeric_col_unique [of inv_df "''On_Hand''" parse] by auto
    from f' cf have "columns formula' = sheet_columns fvals"
      by (simp add: numeric_col_columns)
    with assms f i f' i' show "load_data parse fvals ivals =
            Inl (ValueError_headers [''Component'', ''Per_Case''] (sheet_columns fvals))"
      by (auto simp: load_data_def)
  qed
qed

theorem load_data_missing_column_witness:
  "''Per_Case'' \<notin> set (sheet_columns ex_formula_sheet) \<and>
   rectangular ex_formula_sheet \<and> rectangular ex_inventory_sheet \<and>
   count_list (sheet_columns ex_formula_sheet) ''Per_Case'' \<le> 1 \<and>
   count_list (sheet_columns ex_inventory_sheet) ''On_Hand'' \<le> 1 \<and>
   load_data decimal_parser ex_formula_sheet ex_inventory_sheet =
     Inl (ValueError_headers [''Component'', ''Per_Case''] [''Component'', ''UOM'']) \<and>
   main_script decimal_parser ex_formula_sheet ex_inventory_sheet id 5 =
     Inl (ValueError_headers [''Component'', ''Per_Case''] [''Component'', ''UOM''])"
proof -
  have p: "''Per_Case'' \<notin> set (sheet_columns ex_formula_sheet)"
    by code_simp
  then have h: "''Component'' \<notin> set (sheet_columns ex_formula_sheet) \<or>
    ''Per_Case'' \<notin> set (sheet_columns ex_formula_sheet)"
    by simp
  have w: "rectangular ex_formula_sheet \<and> rectangular ex_inventory_sheet \<and>
   count_list (sheet_columns ex_formula_sheet) ''Per_Case'' \<le> 1 \<and>
   count_list (sheet_columns ex_inventory_sheet) ''On_Hand'' \<le> 1"
    by code_simp
  have s: "sheet_columns ex_formula_sheet = [''Component'', ''UOM'']"
    by (simp add: sheet_columns_def ex_formula_sheet_def)
  from load_data_missing_column [OF h, of decimal_parser ex_inventory_sheet id 5] w
  have l: "load_data decimal_parser ex_formula_sheet ex_inventory_sheet =
     Inl (ValueError_headers [''Component'', ''Per_Case''] [''Component'', ''UOM''])"
    and "\<exists>e. load_data decimal_parser ex_formula_sheet ex_inventory_sheet = Inl e \<and>
       main_script decimal_parser ex_formula_sheet ex_inventory_sheet id 5 = Inl e"
    unfolding s by blast+
  then have "main_script decimal_parser ex_formula_sheet ex_inventory_sheet id 5 =
     Inl (ValueError_headers [''Component'', ''Per_Case''] [''Component'', ''UOM''])"
    by auto
  with p w l show ?thesis by blast
qed

text \<open>
  C9. For every edited table and whatever the worksheet held before, \<^verbatim>\<open>write_onhand\<close> first
  clears the worksheet and then writes, so that the worksheet holds exactly the header row
  \<^verbatim>\<open>Component\<close>, \<^verbatim>\<open>On_Hand\<close> followed by one row per edited row with its name and its
  \<^verbatim>\<open>On_Hand\<close> coerced to a number, \<open>0.0\<close> standing for every cell that fails coercion; nothing
  of the earlier content remains.
\<close>

theorem write_onhand_replaces:
  "write_onhand parse ws edited_df =
     [Str ''Component'', Str ''On_Hand''] #
     map (\<lambda>r. [Str (Component r), Flt (coerce parse (On_Hand r))]) edited_df \<and>
   write_onhand_calls parse edited_df = [Clear, Update (write_onhand parse ws edited_df)] \<and>
   (\<forall>r \<in> set edited_df. unreadable parse (On_Hand r) \<longrightarrow>
      [Str (Component r), Flt 0] \<in> set (tl (write_onhand parse ws edited_df)))"
proof -
  have eq: "write_onhand parse ws edited_df =
     [Str ''Component'', Str ''On_Hand''] #
     map (\<lambda>r. [Str (Component r), Flt (coerce parse (On_Hand r))]) edited_df"
    by (simp add: write_onhand_def write_onhand_calls_def onhand_values_def comp_def overlay_Nil)
  moreover have "write_onhand_calls parse edited_df = [Clear, Update (write_onhand parse ws edited_df)]"
    by (simp add: write_onhand_def write_onhand_calls_def overlay_Nil)
  moreover have "[Str (Component r), Flt 0] \<in> set (tl (write_onhand parse ws edited_df))"
    if "r \<in> set edited_df" "unreadable parse (On_Hand r)" for r
  proof -
    from that(2) have "coerce parse (On_Hand r) = 0" by (rule unreadable_coerce)
    with that(1) show ?thesis
      unfolding eq by force
  qed
  ultimately show ?thesis by blast
qed

theorem write_onhand_replaces_witness:
  "write_onhand decimal_parser ex_worksheet ex_edited =
     [[Str ''Component'', Str ''On_Hand''], [Str ''Bottle'', Flt 100], [Str ''Cap'', Flt 0]] \<and>
   write_onhand_calls decimal_parser ex_edited =
     [Clear, Update [[Str ''Component'', Str ''On_Hand''], [Str ''Bottle'', Flt 100], [Str ''Cap'', Flt 0]]] \<and>
   unreadable decimal_parser (On_Hand (ex_edited ! 1)) \<and>
   foldl ws_apply ex_worksheet [Update (onhand_values decimal_parser ex_edited)] =
     [[Str ''Component'', Str ''On_Hand'', Str ''Note''],
      [Str ''Bottle'', Flt 100, Str ''old''],
      [Str ''Cap'', Flt 0, Str ''old''],
      [Str ''Cork'', Flt 3, Str ''old'']]"
proof -
  have e: "[Str ''Component'', Str ''On_Hand''] #
     map (\<lambda>r. [Str (Component r), Flt (coerce decimal_parser (On_Hand r))]) ex_edited =
     [[Str ''Component'', Str ''On_Hand''], [Str ''Bottle'', Flt 100], [Str ''Cap'', Flt 0]]"
    by (simp add: ex_edited_def coerce_Num coerce_Missing)
  from write_onhand_replaces [of decimal_parser ex_worksheet ex_edited]
  have "write_onhand decimal_parser ex_worksheet ex_edited =
     [[Str ''Component'', Str ''On_Hand''], [Str ''Bottle'', Flt 100], [Str ''Cap'', Flt 0]]"
    and "write_onhand_calls decimal_parser ex_edited =
     [Clear, Update [[Str ''Component'', Str ''On_Hand''], [Str ''Bottle'', Flt 100], [Str ''Cap'', Flt 0]]]"
    unfolding e by simp_all
  moreover have "unreadable decimal_parser (On_Hand (ex_edited ! 1))"
    by (simp add: ex_edited_def)
  moreover have "foldl ws_apply ex_worksheet [Update (onhand_values decimal_parser ex_edited)] =
     [[Str ''Component'', Str ''On_Hand'', Str ''Note''],
      [Str ''Bottle'', Flt 100, Str ''old''],
      [Str ''Cap'', Flt 0, Str ''old''],
      [Str ''Cork'', Flt 3, Str ''old'']]"
    by code_simp
  ultimately show ?thesis by blast
qed

end
